theory Spec2Isabelle
  imports Main "HOL-Library.Log_Nat"
begin

section \<open>Floating-point values\<close>

text \<open>
  The program computes with C++ \<open>float\<close> (IEEE 754 binary32) and writes its constants as
  \<open>double\<close> literals (binary64).  A value of either format is a NaN, an infinity or a
  finite rational; the format only decides which rationals occur, so one type serves both and
  a conversion is a rounding.  The sign of zero is not tracked: the operations used by the
  program (ordered comparisons, addition, subtraction) do not observe it.
\<close>

datatype fp = NaN | NInf | Fin rat | PInf

text \<open>Round to the nearest integer, ties to the even one (the IEEE default mode).\<close>

definition round_half_even :: "rat \<Rightarrow> int" where
  "round_half_even m =
     (let f = \<lfloor>m\<rfloor>; r = m - of_int f
      in if r < 1/2 then f else if 1/2 < r then f + 1 else if even f then f else f + 1)"

text \<open>\<open>ilog2 a\<close> is the binary exponent of a positive rational: \<open>2^e \<le> a < 2^(e+1)\<close>.\<close>

definition ilog2 :: "rat \<Rightarrow> int" where
  "ilog2 a = (case quotient_of a of (p, q) \<Rightarrow>
      (let e = bitlen p - bitlen q in if 2 powi e \<le> a then e else e - 1))"

text \<open>
  \<open>round_bin p emin emax a\<close> rounds \<open>a\<close> to the binary format with \<open>p\<close> significand bits
  and exponent range \<open>emin..emax\<close>: below \<open>2^emin\<close> the spacing stays that of the
  subnormal numbers, and a result of magnitude \<open>2^(emax+1)\<close> or more overflows to an
  infinity.
\<close>

definition round_bin :: "nat \<Rightarrow> int \<Rightarrow> int \<Rightarrow> rat \<Rightarrow> fp" where
  "round_bin p emin emax a =
     (if a = 0 then Fin 0
      else let e = max (ilog2 \<bar>a\<bar>) emin;
               q = 2 powi (e - int p + 1);
               r = of_int (round_half_even (a / q)) * q
           in if 2 powi (emax + 1) \<le> \<bar>r\<bar> then (if a < 0 then NInf else PInf) else Fin r)"

definition to_double :: "rat \<Rightarrow> fp" where
  "to_double a = round_bin 53 (- 1022) 1023 a"

definition to_float :: "rat \<Rightarrow> fp" where
  "to_float a = round_bin 24 (- 126) 127 a"

text \<open>Conversion of a \<open>double\<close> value to \<open>float\<close>, as at a call with a \<open>float\<close> parameter.\<close>

fun float_of :: "fp \<Rightarrow> fp" where
  "float_of (Fin a) = to_float a"
| "float_of v = v"

text \<open>A decimal literal of the source passed where a \<open>float\<close> is expected.\<close>

definition flit :: "rat \<Rightarrow> fp" where
  "flit c = float_of (to_double c)"

text \<open>The ordered comparisons: each is false as soon as one operand is a NaN.\<close>

fun flt :: "fp \<Rightarrow> fp \<Rightarrow> bool" where
  "flt NaN _ = False"
| "flt _ NaN = False"
| "flt NInf NInf = False"
| "flt NInf _ = True"
| "flt PInf _ = False"
| "flt (Fin a) PInf = True"
| "flt (Fin a) NInf = False"
| "flt (Fin a) (Fin b) = (a < b)"

fun fle :: "fp \<Rightarrow> fp \<Rightarrow> bool" where
  "fle NaN _ = False"
| "fle _ NaN = False"
| "fle NInf _ = True"
| "fle PInf PInf = True"
| "fle PInf _ = False"
| "fle (Fin a) PInf = True"
| "fle (Fin a) NInf = False"
| "fle (Fin a) (Fin b) = (a \<le> b)"

definition fgt :: "fp \<Rightarrow> fp \<Rightarrow> bool" where
  "fgt a b = flt b a"

definition fge :: "fp \<Rightarrow> fp \<Rightarrow> bool" where
  "fge a b = fle b a"

text \<open>Addition and subtraction of two \<open>float\<close>s, rounded to \<open>float\<close>.\<close>

fun fadd :: "fp \<Rightarrow> fp \<Rightarrow> fp" where
  "fadd NaN _ = NaN"
| "fadd _ NaN = NaN"
| "fadd PInf NInf = NaN"
| "fadd NInf PInf = NaN"
| "fadd PInf _ = PInf"
| "fadd NInf _ = NInf"
| "fadd (Fin a) PInf = PInf"
| "fadd (Fin a) NInf = NInf"
| "fadd (Fin a) (Fin b) = to_float (a + b)"

fun fsub :: "fp \<Rightarrow> fp \<Rightarrow> fp" where
  "fsub NaN _ = NaN"
| "fsub _ NaN = NaN"
| "fsub PInf PInf = NaN"
| "fsub NInf NInf = NaN"
| "fsub PInf _ = PInf"
| "fsub NInf _ = NInf"
| "fsub (Fin a) PInf = NInf"
| "fsub (Fin a) NInf = PInf"
| "fsub (Fin a) (Fin b) = to_float (a - b)"

fun fneg :: "fp \<Rightarrow> fp" where
  "fneg NaN = NaN"
| "fneg NInf = PInf"
| "fneg PInf = NInf"
| "fneg (Fin a) = Fin (- a)"

section \<open>Positions and the two range helpers\<close>

text \<open>\<open>class Point3\<close>: three \<open>float\<close> fields, each 0 by default.\<close>

record Point3 =
  px :: fp
  py :: fp
  pz :: fp

definition Point3_default :: Point3 where
  "Point3_default = \<lparr>px = Fin 0, py = Fin 0, pz = Fin 0\<rparr>"

definition clampFloat :: "fp \<Rightarrow> fp \<Rightarrow> fp \<Rightarrow> fp" where
  "clampFloat v lo hi = (if flt v lo then lo else if fgt v hi then hi else v)"

definition between :: "fp \<Rightarrow> fp \<Rightarrow> fp \<Rightarrow> bool" where
  "between v lo hi = (fge v lo \<and> fle v hi)"

section \<open>Boundary clamp\<close>

text \<open>
  \<open>correctForBoundaries\<close> rewrites the camera position.  The test \<open>cameraPos->y < -7.53\<close>
  compares in \<open>double\<close>, so its constant is the \<open>double\<close> literal; every other constant
  is passed to a \<open>float\<close> parameter.  The calls into the renderer are outside the model.
\<close>

definition correctForBoundaries :: "Point3 \<Rightarrow> Point3" where
  "correctForBoundaries p0 =
     (let p1 = p0\<lparr>px := clampFloat (px p0) (flit (- 11.5)) (flit 11.5)\<rparr>;
          p2 = p1\<lparr>pz := clampFloat (pz p1) (flit (- 10)) (flit 10)\<rparr>
      in if flt (py p2) (to_double (- 7.53)) then
           (if between (pz p2) (flit (- 10)) (flit (- 4.64)) then
              (let p3 = p2\<lparr>px := clampFloat (px p2) (flit (- 5.45)) (flit 11.5)\<rparr>
               in if between (px p3) (flit (- 5.45)) (flit 4.5)
                  then p3\<lparr>pz := clampFloat (pz p3) (flit (- 10)) (flit (- 4.64))\<rparr>
                  else p3)
            else if between (pz p2) (flit 4.76) (flit 10) then
              (let p3 = p2\<lparr>px := clampFloat (px p2) (flit (- 2.6)) (flit 11.5)\<rparr>
               in if between (px p3) (flit (- 2.6)) (flit 4.5)
                  then p3\<lparr>pz := clampFloat (pz p3) (flit 4.76) (flit 10)\<rparr>
                  else p3)
            else if between (pz p2) (flit (- 4.64)) (flit 4.76) then
              p2\<lparr>px := clampFloat (px p2) (flit 4.5) (flit 11.5)\<rparr>
            else p2)
         else p2)"

section \<open>Teleport check\<close>

text \<open>
  \<open>teleportIfNecessary\<close> is two \<open>if\<close> statements in sequence; the second reads the
  position the first may have written.
\<close>

definition lower_trigger :: "Point3 \<Rightarrow> bool" where
  "lower_trigger p =
     (between (px p) (flit (- 11.5)) (flit (- 7.5))
      \<and> between (pz p) (flit (- 2.5)) (flit (- 1.5))
      \<and> between (py p) (flit (- 2.01)) (flit (- 1.99)))"

definition upper_trigger :: "Point3 \<Rightarrow> bool" where
  "upper_trigger p =
     (between (px p) (flit (- 3.32)) (flit (- 2.32))
      \<and> between (pz p) (flit (- 10)) (flit (- 7.5))
      \<and> between (py p) (flit (- 7.55)) (flit (- 7.53)))"

definition lower_to_upper :: "Point3 \<Rightarrow> Point3" where
  "lower_to_upper p =
     (if lower_trigger p
      then p\<lparr>px := flit 1.86, py := flit (- 7.54), pz := flit (- 9.9)\<rparr>
      else p)"

definition upper_to_lower :: "Point3 \<Rightarrow> Point3" where
  "upper_to_lower p =
     (if upper_trigger p
      then p\<lparr>px := flit (- 9.35), py := flit (- 2), pz := flit 0\<rparr>
      else p)"

definition teleportIfNecessary :: "Point3 \<Rightarrow> Point3" where
  "teleportIfNecessary p = upper_to_lower (lower_to_upper p)"

section \<open>Navigation state and input handlers\<close>

text \<open>
  The globals written by the handlers: the camera position (stored with inverted sign, as
  the source notes), the yaw counter \<open>cameraRotationY\<close> (a \<open>GLfloat\<close>) and the two
  \<open>static\<close> variables of \<open>handleMouseMotion\<close>.  \<open>init\<close> places the camera at
  \<open>(0, -2, 0)\<close> with yaw 0; the statics start at 0.  The integer literals are exact as
  \<open>float\<close>s.
\<close>

record Camera =
  cameraPos :: Point3
  cameraRotationY :: fp
  prevX :: int
  prevY :: int

definition init :: Camera where
  "init = \<lparr>cameraPos = \<lparr>px = Fin 0, py = Fin (- 2), pz = Fin 0\<rparr>,
           cameraRotationY = Fin 0, prevX = 0, prevY = 0\<rparr>"

text \<open>
  \<open>handleKeyboard\<close>: \<open>forward\<close> is what \<open>getCameraForward\<close> reads back from the renderer's
  matrix, an input here.  The \<open>switch\<close> either moves the position, leaves it (any other
  key) or ends the process (\<open>q\<close>, \<open>exit(0)\<close>: \<open>None\<close> below); whatever did not exit then
  runs \<open>correctForBoundaries\<close> and \<open>teleportIfNecessary\<close>, in this order.
\<close>

datatype outcome = Exit int | Running Camera

definition handleKeyboard :: "char \<Rightarrow> Point3 \<Rightarrow> Camera \<Rightarrow> outcome" where
  "handleKeyboard key forward s =
     (let p = cameraPos s;
          moved =
            (if key = CHR ''w'' then
               Some (p\<lparr>px := fadd (px p) (px forward), pz := fadd (pz p) (pz forward)\<rparr>)
             else if key = CHR ''s'' then
               Some (p\<lparr>px := fsub (px p) (px forward), pz := fsub (pz p) (pz forward)\<rparr>)
             else if key = CHR ''a'' then
               Some (p\<lparr>px := fadd (px p) (pz forward), pz := fsub (pz p) (px forward)\<rparr>)
             else if key = CHR ''d'' then
               Some (p\<lparr>px := fsub (px p) (pz forward), pz := fadd (pz p) (px forward)\<rparr>)
             else if key = CHR ''q'' then None
             else Some p)
      in case moved of
           None \<Rightarrow> Exit 0
         | Some p' \<Rightarrow> Running (s\<lparr>cameraPos := teleportIfNecessary (correctForBoundaries p')\<rparr>))"

text \<open>
  \<open>handleMouseMotion\<close>: a sample left of the previous one turns left, any other sample
  (one at the same \<open>x\<close> included) turns right.  The comparisons and the \<open>\<plusminus> 1\<close> are
  \<open>float\<close> operations on the yaw counter.
\<close>

definition handleMouseMotion :: "int \<Rightarrow> int \<Rightarrow> Camera \<Rightarrow> Camera" where
  "handleMouseMotion mx my s =
     (let r = cameraRotationY s;
          r' = (if mx < prevX s
                then (if fge r (Fin 359) then Fin 0 else fadd r (Fin 1))
                else (if fle r (Fin 0) then Fin 359 else fsub r (Fin 1)))
      in s\<lparr>cameraRotationY := r', prevX := mx, prevY := my\<rparr>)"

text \<open>The camera after a sequence of pointer samples, starting from \<open>init\<close>.\<close>

definition after_samples :: "(int \<times> int) list \<Rightarrow> Camera" where
  "after_samples evs = foldl (\<lambda>s e. handleMouseMotion (fst e) (snd e) s) init evs"

text \<open>
  The movement rules in the words of the specification: \<open>rotate90\<close> maps \<open>(x, _, z)\<close> to
  \<open>(z, _, -x)\<close>, and a position is moved by a vector in the horizontal plane (the forward
  vector is horizontal; the height is not touched by walking).
\<close>

definition rotate90 :: "Point3 \<Rightarrow> Point3" where
  "rotate90 v = \<lparr>px = pz v, py = py v, pz = fneg (px v)\<rparr>"

definition plus_horizontal :: "Point3 \<Rightarrow> Point3 \<Rightarrow> Point3" where
  "plus_horizontal p v = p\<lparr>px := fadd (px p) (px v), pz := fadd (pz p) (pz v)\<rparr>"

definition minus_horizontal :: "Point3 \<Rightarrow> Point3 \<Rightarrow> Point3" where
  "minus_horizontal p v = p\<lparr>px := fsub (px p) (px v), pz := fsub (pz p) (pz v)\<rparr>"

section \<open>The model file reader\<close>

text \<open>
  \<open>Face\<close> holds two arrays of four \<open>int\<close>s.  A \<open>Face\<close> is declared without initialiser
  and filled by \<open>sscanf_s\<close>, which stops at the first field it cannot scan: an \<open>int\<close> that
  was never assigned, or was assigned a number outside the 32-bit range, is indeterminate,
  written \<open>None\<close>.
\<close>

datatype 'a quad = Quad 'a 'a 'a 'a

fun quad_list :: "'a quad \<Rightarrow> 'a list" where
  "quad_list (Quad a b c d) = [a, b, c, d]"

record Face =
  vertexIds :: "int option quad"
  normalIds :: "int option quad"

record Obj =
  name :: string
  vertices :: "Point3 list"
  normals :: "Point3 list"
  faces :: "Face list"

definition Obj_default :: Obj where
  "Obj_default = \<lparr>name = [], vertices = [], normals = [], faces = []\<rparr>"

subsection \<open>Scanning numbers\<close>

text \<open>
  The two conversions of \<open>sscanf_s\<close> used by the reader, for decimal numerals: \<open>%d\<close> reads
  an optional sign and digits; \<open>%f\<close> reads an optional sign, digits with an optional
  fraction, and an optional exponent, and rounds the decimal value to \<open>float\<close>.  Both skip
  leading white space and fail (\<open>None\<close>) when no digit follows.  An exponent letter
  without digits is left unread (C libraries differ on it); hexadecimal numerals and the
  spellings of infinity and NaN are not covered.  The statements below about the reader
  either hold for whatever the scan returns or use plain decimal numerals.
\<close>

definition isspace :: "char \<Rightarrow> bool" where
  "isspace c = (c = CHR '' '' \<or> c = CHR 0x09 \<or> c = CHR 0x0A \<or> c = CHR 0x0B
               \<or> c = CHR 0x0C \<or> c = CHR 0x0D)"

definition isdigit :: "char \<Rightarrow> bool" where
  "isdigit c = (48 \<le> (of_char c :: nat) \<and> (of_char c :: nat) \<le> 57)"

definition skip_ws :: "string \<Rightarrow> string" where
  "skip_ws s = dropWhile isspace s"

definition decimal :: "string \<Rightarrow> nat" where
  "decimal ds = foldl (\<lambda>a c. 10 * a + (of_char c - 48)) 0 ds"

text \<open>An optional sign: whether it was a minus, and the rest.\<close>

fun scan_sign :: "string \<Rightarrow> bool \<times> string" where
  "scan_sign [] = (False, [])"
| "scan_sign (c # r) =
     (if c = CHR ''-'' then (True, r) else if c = CHR ''+'' then (False, r) else (False, c # r))"

definition scan_int :: "string \<Rightarrow> (int \<times> string) option" where
  "scan_int s0 =
     (case scan_sign (skip_ws s0) of (neg, s1) \<Rightarrow>
        (let ds = takeWhile isdigit s1
         in if ds = [] then None
            else Some (if neg then - int (decimal ds) else int (decimal ds),
                       dropWhile isdigit s1)))"

text \<open>The fraction digits after a point, if there is a point.\<close>

fun scan_fraction :: "string \<Rightarrow> string \<times> string" where
  "scan_fraction [] = ([], [])"
| "scan_fraction (c # r) =
     (if c = CHR ''.'' then (takeWhile isdigit r, dropWhile isdigit r) else ([], c # r))"

text \<open>An exponent part is taken only when it has a digit.\<close>

fun scan_exponent :: "string \<Rightarrow> int \<times> string" where
  "scan_exponent [] = (0, [])"
| "scan_exponent (c # r) =
     (if c = CHR ''e'' \<or> c = CHR ''E'' then
        (case scan_sign r of (neg, r1) \<Rightarrow>
           (let ds = takeWhile isdigit r1
            in if ds = [] then (0, c # r)
               else (if neg then - int (decimal ds) else int (decimal ds),
                     dropWhile isdigit r1)))
      else (0, c # r))"

definition scan_float :: "string \<Rightarrow> (fp \<times> string) option" where
  "scan_float s0 =
     (case scan_sign (skip_ws s0) of (neg, s1) \<Rightarrow>
        (let ip = takeWhile isdigit s1
         in case scan_fraction (dropWhile isdigit s1) of (fr, s2) \<Rightarrow>
              if ip = [] \<and> fr = [] then None
              else (case scan_exponent s2 of (ex, s3) \<Rightarrow>
                (let m = of_nat (decimal (ip @ fr)) / 10 ^ length fr * 10 powi ex
                 in Some (to_float (if neg then - m else m), s3)))))"

subsection \<open>The two formats\<close>

text \<open>
  \<open>"v %f %f %f"\<close> and \<open>"vn %f %f %f"\<close> after their leading letters: up to \<open>n\<close> times white
  space and a \<open>%f\<close>.  The result lists the values assigned, in order; the scan stops at
  the first failure.
\<close>

fun scan_floats :: "nat \<Rightarrow> string \<Rightarrow> fp list" where
  "scan_floats 0 s = []"
| "scan_floats (Suc n) s =
     (case scan_float (skip_ws s) of
        None \<Rightarrow> []
      | Some (v, r) \<Rightarrow> v # scan_floats n r)"

text \<open>A default \<open>Point3\<close> whose fields \<open>x\<close>, \<open>y\<close>, \<open>z\<close> received the scanned values.\<close>

fun assign_point :: "fp list \<Rightarrow> Point3" where
  "assign_point [] = Point3_default"
| "assign_point [a] = Point3_default\<lparr>px := a\<rparr>"
| "assign_point [a, b] = Point3_default\<lparr>px := a, py := b\<rparr>"
| "assign_point (a # b # c # _) = Point3_default\<lparr>px := a, py := b, pz := c\<rparr>"

text \<open>What an \<open>int\<close> holds after \<open>%d\<close> scanned the number \<open>v\<close>.\<close>

definition store_int :: "int \<Rightarrow> int option" where
  "store_int v = (if - (2 ^ 31) \<le> v \<and> v < 2 ^ 31 then Some v else None)"

text \<open>
  \<open>"f %d//%d %d//%d %d//%d %d//%d"\<close> after its leading letter: up to \<open>n\<close> times white
  space, a \<open>%d\<close>, the two slashes, a \<open>%d\<close>.  The result lists the values assigned, in
  the order \<open>vertexIds[0], normalIds[0], vertexIds[1], \<dots>\<close>.
\<close>

fun scan_pairs :: "nat \<Rightarrow> string \<Rightarrow> int option list" where
  "scan_pairs 0 s = []"
| "scan_pairs (Suc n) s =
     (case scan_int (skip_ws s) of
        None \<Rightarrow> []
      | Some (v, r) \<Rightarrow> store_int v #
          (case r of
             a # b # r' \<Rightarrow>
               (if a = CHR ''/'' \<and> b = CHR ''/'' then
                  (case scan_int r' of
                     None \<Rightarrow> []
                   | Some (w, r'') \<Rightarrow> store_int w # scan_pairs n r'')
                else [])
           | _ \<Rightarrow> []))"

text \<open>The \<open>i\<close>-th assigned value, indeterminate when the scan did not get that far.\<close>

definition assigned :: "int option list \<Rightarrow> nat \<Rightarrow> int option" where
  "assigned xs i = (if i < length xs then xs ! i else None)"

definition assign_face :: "int option list \<Rightarrow> Face" where
  "assign_face xs =
     \<lparr>vertexIds = Quad (assigned xs 0) (assigned xs 2) (assigned xs 4) (assigned xs 6),
      normalIds = Quad (assigned xs 1) (assigned xs 3) (assigned xs 5) (assigned xs 7)\<rparr>"

subsection \<open>\<open>Obj::readFile\<close>\<close>

text \<open>
  What the reader prints, as events rather than formatted text: the coordinates after a
  \<open>v\<close> or \<open>vn\<close> line, the vertex indices after an \<open>f\<close> line, the complaint about any
  other line, and the name at the end.
\<close>

datatype printed =
    Coords Point3
  | FaceIds "int option quad"
  | Invalid string
  | Name string

text \<open>
  \<open>line[i]\<close> of a \<open>std::string\<close>, for \<open>i\<close> up to the length: the character at the length is
  the terminating NUL.  \<open>c_str\<close> is what \<open>sscanf_s\<close> sees: the line up to its first NUL.
\<close>

definition char_at :: "string \<Rightarrow> nat \<Rightarrow> char" where
  "char_at s i = (if i < length s then s ! i else CHR 0x00)"

definition c_str :: "string \<Rightarrow> string" where
  "c_str s = takeWhile (\<lambda>c. c \<noteq> CHR 0x00) s"

text \<open>One turn of the \<open>while (getline(file, line))\<close> loop.\<close>

definition read_line :: "string \<Rightarrow> Obj \<times> printed list \<Rightarrow> Obj \<times> printed list" where
  "read_line line st =
     (case st of (obj, out) \<Rightarrow>
        if char_at line 0 = CHR ''#'' then (obj, out)
        else if char_at line 0 = CHR ''o'' then (obj\<lparr>name := drop 1 line\<rparr>, out)
        else if char_at line 0 = CHR ''v'' then
          (if char_at line 1 = CHR ''n'' then
             (let point = assign_point (scan_floats 3 (drop 2 (c_str line)))
              in (obj\<lparr>normals := normals obj @ [point]\<rparr>, out @ [Coords point]))
           else
             (let point = assign_point (scan_floats 3 (drop 1 (c_str line)))
              in (obj\<lparr>vertices := vertices obj @ [point]\<rparr>, out @ [Coords point])))
        else if char_at line 0 = CHR ''f'' then
          (let face = assign_face (scan_pairs 4 (drop 1 (c_str line)))
           in (obj\<lparr>faces := faces obj @ [face]\<rparr>, out @ [FaceIds (vertexIds face)]))
        else (obj, out @ [Invalid line]))"

text \<open>
  \<open>readFile\<close> on the lines of the file (none when the file cannot be opened), starting from
  the object as constructed, and printing the name last.  It has no failing outcome.
\<close>

definition readFile :: "string list \<Rightarrow> Obj \<Rightarrow> Obj \<times> printed list" where
  "readFile lines obj =
     (case foldl (\<lambda>st l. read_line l st) (obj, []) lines of
        (obj', out) \<Rightarrow> (obj', out @ [Name (name obj')]))"

subsection \<open>\<open>Obj::toBuffer\<close>\<close>

text \<open>
  \<open>toBuffer\<close> resolves every stored index \<open>k\<close> as element \<open>k - 1\<close> of the vector, with the
  unchecked \<open>operator[]\<close>.  Reading an indeterminate \<open>int\<close> or an element outside the vector
  is undefined behaviour, a fault of the model; otherwise the result lists the (normal,
  vertex) pairs handed to the renderer.
\<close>

datatype fault = OutOfRange | Indeterminate

definition resolve :: "'a list \<Rightarrow> int option \<Rightarrow> fault + 'a" where
  "resolve xs ident =
     (case ident of
        None \<Rightarrow> Inl Indeterminate
      | Some k \<Rightarrow> if 1 \<le> k \<and> k \<le> int (length xs) then Inr (xs ! nat (k - 1))
                  else Inl OutOfRange)"

text \<open>The inner loop, over the four corners of a face.\<close>

fun corners :: "Obj \<Rightarrow> (int option \<times> int option) list \<Rightarrow> fault + (Point3 \<times> Point3) list" where
  "corners m [] = Inr []"
| "corners m ((v, n) # r) =
     (case resolve (vertices m) v of
        Inl e \<Rightarrow> Inl e
      | Inr vertex \<Rightarrow>
          (case resolve (normals m) n of
             Inl e \<Rightarrow> Inl e
           | Inr normal \<Rightarrow>
               (case corners m r of
                  Inl e \<Rightarrow> Inl e
                | Inr out \<Rightarrow> Inr ((normal, vertex) # out))))"

text \<open>The outer loop, over the faces.\<close>

fun quads :: "Obj \<Rightarrow> Face list \<Rightarrow> fault + (Point3 \<times> Point3) list" where
  "quads m [] = Inr []"
| "quads m (f # fs) =
     (case corners m (zip (quad_list (vertexIds f)) (quad_list (normalIds f))) of
        Inl e \<Rightarrow> Inl e
      | Inr out \<Rightarrow>
          (case quads m fs of
             Inl e \<Rightarrow> Inl e
           | Inr outs \<Rightarrow> Inr (out @ outs)))"

definition toBuffer :: "Obj \<Rightarrow> fault + (Point3 \<times> Point3) list" where
  "toBuffer m = quads m (faces m)"

text \<open>Every stored index of every face lies within its vector (counting from 1).\<close>

definition index_ok :: "nat \<Rightarrow> int option \<Rightarrow> bool" where
  "index_ok n ident = (case ident of None \<Rightarrow> False | Some k \<Rightarrow> 1 \<le> k \<and> k \<le> int n)"

definition indices_resolve :: "Obj \<Rightarrow> bool" where
  "indices_resolve m =
     list_all (\<lambda>f. list_all (index_ok (length (vertices m))) (quad_list (vertexIds f))
                 \<and> list_all (index_ok (length (normals m))) (quad_list (normalIds f)))
              (faces m)"


text \<open>
  The corners of a face in the words of the format: an index \<open>k\<close> of the file, counting
  from 1, names element \<open>k - 1\<close> of the sequence, the vertex from the vertex indices and the
  normal from the normal indices.
\<close>

definition face_corners :: "Obj \<Rightarrow> Face \<Rightarrow> (Point3 \<times> Point3) list" where
  "face_corners m f =
     map (\<lambda>(v, n). (normals m ! nat (the n - 1), vertices m ! nat (the v - 1)))
         (zip (quad_list (vertexIds f)) (quad_list (normalIds f)))"

subsection \<open>The face line of the file format\<close>

text \<open>
  The line \<open>f v1//n1 v2//n2 v3//n3 v4//n4\<close> of the format description, for four vertex
  indices and four normal indices written in decimal.
\<close>

definition digit_char :: "nat \<Rightarrow> char" where
  "digit_char d = char_of (48 + d)"

fun digits :: "nat \<Rightarrow> string" where
  "digits n = (if n < 10 then [digit_char n] else digits (n div 10) @ [digit_char (n mod 10)])"

definition show_int :: "int \<Rightarrow> string" where
  "show_int k = (if k < 0 then CHR ''-'' # digits (nat (- k)) else digits (nat k))"

fun face_line :: "int quad \<Rightarrow> int quad \<Rightarrow> string" where
  "face_line (Quad v0 v1 v2 v3) (Quad n0 n1 n2 n3) =
     ''f'' @ '' '' @ show_int v0 @ ''//'' @ show_int n0
           @ '' '' @ show_int v1 @ ''//'' @ show_int n1
           @ '' '' @ show_int v2 @ ''//'' @ show_int n2
           @ '' '' @ show_int v3 @ ''//'' @ show_int n3"

section \<open>Rounding: the exponent and a certificate for a rounded value\<close>

lemma powi2_less_cancel: "(2::rat) powi m < 2 powi n \<Longrightarrow> m < n"
proof (rule ccontr)
  assume a: "(2::rat) powi m < 2 powi n" and "\<not> m < n"
  then have "n \<le> m" by simp
  then have "(2::rat) powi n \<le> 2 powi m" by (intro power_int_increasing) auto
  with a show False by simp
qed

lemma bitlen_rat_bounds:
  assumes "0 < p"
  shows "(2::rat) powi (bitlen p - 1) \<le> of_int p" and "of_int p < (2::rat) powi (bitlen p)"
proof -
  from bitlen_bounds[OF assms] have b: "2 ^ nat (bitlen p - 1) \<le> p" "p < 2 ^ nat (bitlen p)"
    by auto
  have ge1: "1 \<le> bitlen p" using assms by (auto simp: bitlen_alt_def)
  have "(of_int (2 ^ nat (bitlen p - 1)) :: rat) \<le> of_int p" using b(1) by (simp only: of_int_le_iff)
  then show "(2::rat) powi (bitlen p - 1) \<le> of_int p"
    using ge1 by (simp add: power_int_nonneg_exp)
  have "(of_int p :: rat) < of_int (2 ^ nat (bitlen p))" using b(2) by (simp only: of_int_less_iff)
  then show "of_int p < (2::rat) powi (bitlen p)"
    using ge1 by (simp add: power_int_nonneg_exp)
qed

lemma ilog2_unique:
  assumes pos: "0 < a" and lo: "2 powi e \<le> a" and hi: "a < 2 powi (e + 1)"
  shows "ilog2 a = e"
proof -
  obtain p q where pq: "quotient_of a = (p, q)" by (cases "quotient_of a")
  have q0: "0 < q" using pq quotient_of_denom_pos by blast
  have a: "a = of_int p / of_int q" using pq quotient_of_div by blast
  have p0: "0 < p" using pos q0 a by (simp add: zero_less_divide_iff)
  define e0 where "e0 = bitlen p - bitlen q"
  have qr: "(0::rat) < of_int q" using q0 by simp
  have up: "a < 2 powi (e0 + 1)"
  proof -
    have "of_int p < (2::rat) powi (bitlen p)" by (rule bitlen_rat_bounds[OF p0])
    also have "\<dots> = 2 powi (e0 + 1) * 2 powi (bitlen q - 1)"
      by (simp add: e0_def power_int_add[symmetric])
    also have "\<dots> \<le> 2 powi (e0 + 1) * of_int q"
      using bitlen_rat_bounds(1)[OF q0] by (intro mult_left_mono) auto
    finally show ?thesis using qr by (simp add: a pos_divide_less_eq)
  qed
  have dn: "2 powi (e0 - 1) < a"
  proof -
    have "2 powi (e0 - 1) * of_int q < (2::rat) powi (e0 - 1) * 2 powi (bitlen q)"
      using bitlen_rat_bounds(2)[OF q0] by (intro mult_strict_left_mono) auto
    also have "\<dots> = 2 powi (bitlen p - 1)"
      by (simp add: e0_def power_int_add[symmetric])
    also have "\<dots> \<le> of_int p" by (rule bitlen_rat_bounds[OF p0])
    finally show ?thesis using qr by (simp add: a pos_less_divide_eq)
  qed
  have "(2::rat) powi e < 2 powi (e0 + 1)" using lo up by simp
  then have c1: "e \<le> e0" using powi2_less_cancel by fastforce
  have "(2::rat) powi (e0 - 1) < 2 powi (e + 1)" using dn hi by simp
  then have c2: "e0 - 1 \<le> e" using powi2_less_cancel by fastforce
  show ?thesis
  proof (cases "2 powi e0 \<le> a")
    case True
    then have "(2::rat) powi e0 < 2 powi (e + 1)" using hi by simp
    then have "e0 \<le> e" using powi2_less_cancel by fastforce
    with c1 True show ?thesis by (simp add: ilog2_def pq e0_def Let_def)
  next
    case False
    then have "(2::rat) powi e < 2 powi e0" using lo by simp
    then have "e < e0" by (rule powi2_less_cancel)
    with c2 False show ?thesis by (simp add: ilog2_def pq e0_def Let_def)
  qed
qed

lemma round_half_even_near:
  assumes "\<bar>of_int k - m\<bar> < 1/2"
  shows "round_half_even m = k"
proof -
  have "\<lfloor>m\<rfloor> = k \<or> \<lfloor>m\<rfloor> = k - 1" using assms by linarith
  then show ?thesis
  proof
    assume f: "\<lfloor>m\<rfloor> = k"
    then have "m - of_int k < 1/2" using assms by linarith
    then show ?thesis by (simp add: round_half_even_def f)
  next
    assume f: "\<lfloor>m\<rfloor> = k - 1"
    then have "1/2 < m - of_int (k - 1)" using assms by (simp; linarith)
    then show ?thesis by (simp add: round_half_even_def f)
  qed
qed

lemma round_bin_cert:
  assumes "2 powi e \<le> \<bar>a\<bar>" and "\<bar>a\<bar> < 2 powi (e + 1)" and "emin \<le> e"
    and "\<bar>of_int k - a / 2 powi (e - int p + 1)\<bar> < 1/2"
    and "r = of_int k * 2 powi (e - int p + 1)"
    and "\<bar>r\<bar> < 2 powi (emax + 1)"
  shows "round_bin p emin emax a = Fin r"
proof -
  have "(0::rat) < 2 powi e" by simp
  then have pos: "0 < \<bar>a\<bar>" using assms(1) by linarith
  have il: "ilog2 \<bar>a\<bar> = e" by (rule ilog2_unique[OF pos assms(1,2)])
  have rk: "round_half_even (a / 2 powi (e - int p + 1)) = k"
    by (rule round_half_even_near[OF assms(4)])
  show ?thesis using pos assms(3,5,6)
    by (simp add: round_bin_def il rk Let_def max_def)
qed

section \<open>The constants of the source, evaluated\<close>

lemma flit_m11_5: "flit (- 11.5) = Fin (- 23 / 2)"
proof -
  have "to_double (- 11.5) = Fin (- 23 / 2)"
    unfolding to_double_def
    by (rule round_bin_cert[where e="3" and k="- 6473924464345088"]) (simp_all add: power_int_minus)
  moreover have "to_float (- 23 / 2) = Fin (- 23 / 2)"
    unfolding to_float_def
    by (rule round_bin_cert[where e="3" and k="- 12058624"]) (simp_all add: power_int_minus)
  ultimately show ?thesis by (simp add: flit_def)
qed

lemma flit_11_5: "flit 11.5 = Fin (23 / 2)"
proof -
  have "to_double 11.5 = Fin (23 / 2)"
    unfolding to_double_def
    by (rule round_bin_cert[where e="3" and k="6473924464345088"]) (simp_all add: power_int_minus)
  moreover have "to_float (23 / 2) = Fin (23 / 2)"
    unfolding to_float_def
    by (rule round_bin_cert[where e="3" and k="12058624"]) (simp_all add: power_int_minus)
  ultimately show ?thesis by (simp add: flit_def)
qed

lemma flit_m10: "flit (- 10) = Fin (- 10)"
proof -
  have "to_double (- 10) = Fin (- 10)"
    unfolding to_double_def
    by (rule round_bin_cert[where e="3" and k="- 5629499534213120"]) (simp_all add: power_int_minus)
  moreover have "to_float (- 10) = Fin (- 10)"
    unfolding to_float_def
    by (rule round_bin_cert[where e="3" and k="- 10485760"]) (simp_all add: power_int_minus)
  ultimately show ?thesis by (simp add: flit_def)
qed

lemma flit_10: "flit 10 = Fin 10"
proof -
  have "to_double 10 = Fin 10"
    unfolding to_double_def
    by (rule round_bin_cert[where e="3" and k="5629499534213120"]) (simp_all add: power_int_minus)
  moreover have "to_float 10 = Fin 10"
    unfolding to_float_def
    by (rule round_bin_cert[where e="3" and k="10485760"]) (simp_all add: power_int_minus)
  ultimately show ?thesis by (simp add: flit_def)
qed

lemma flit_m4_64: "flit (- 4.64) = Fin (- 9730785 / 2097152)"
proof -
  have "to_double (- 4.64) = Fin (- 5224175567749775 / 1125899906842624)"
    unfolding to_double_def
    by (rule round_bin_cert[where e="2" and k="- 5224175567749775"]) (simp_all add: power_int_minus)
  moreover have "to_float (- 5224175567749775 / 1125899906842624) = Fin (- 9730785 / 2097152)"
    unfolding to_float_def
    by (rule round_bin_cert[where e="2" and k="- 9730785"]) (simp_all add: power_int_minus)
  ultimately show ?thesis by (simp add: flit_def)
qed

lemma flit_m5_45: "flit (- 5.45) = Fin (- 5714739 / 1048576)"
proof -
  have "to_double (- 5.45) = Fin (- 6136154492292301 / 1125899906842624)"
    unfolding to_double_def
    by (rule round_bin_cert[where e="2" and k="- 6136154492292301"]) (simp_all add: power_int_minus)
  moreover have "to_float (- 6136154492292301 / 1125899906842624) = Fin (- 5714739 / 1048576)"
    unfolding to_float_def
    by (rule round_bin_cert[where e="2" and k="- 11429478"]) (simp_all add: power_int_minus)
  ultimately show ?thesis by (simp add: flit_def)
qed

lemma flit_4_5: "flit 4.5 = Fin (9 / 2)"
proof -
  have "to_double 4.5 = Fin (9 / 2)"
    unfolding to_double_def
    by (rule round_bin_cert[where e="2" and k="5066549580791808"]) (simp_all add: power_int_minus)
  moreover have "to_float (9 / 2) = Fin (9 / 2)"
    unfolding to_float_def
    by (rule round_bin_cert[where e="2" and k="9437184"]) (simp_all add: power_int_minus)
  ultimately show ?thesis by (simp add: flit_def)
qed

lemma flit_4_76: "flit 4.76 = Fin (2495611 / 524288)"
proof -
  have "to_double 4.76 = Fin (2679641778285445 / 562949953421312)"
    unfolding to_double_def
    by (rule round_bin_cert[where e="2" and k="5359283556570890"]) (simp_all add: power_int_minus)
  moreover have "to_float (2679641778285445 / 562949953421312) = Fin (2495611 / 524288)"
    unfolding to_float_def
    by (rule round_bin_cert[where e="2" and k="9982444"]) (simp_all add: power_int_minus)
  ultimately show ?thesis by (simp add: flit_def)
qed

lemma flit_m2_6: "flit (- 2.6) = Fin (- 5452595 / 2097152)"
proof -
  have "to_double (- 2.6) = Fin (- 5854679515581645 / 2251799813685248)"
    unfolding to_double_def
    by (rule round_bin_cert[where e="1" and k="- 5854679515581645"]) (simp_all add: power_int_minus)
  moreover have "to_float (- 5854679515581645 / 2251799813685248) = Fin (- 5452595 / 2097152)"
    unfolding to_float_def
    by (rule round_bin_cert[where e="1" and k="- 10905190"]) (simp_all add: power_int_minus)
  ultimately show ?thesis by (simp add: flit_def)
qed

lemma flit_m7_5: "flit (- 7.5) = Fin (- 15 / 2)"
proof -
  have "to_double (- 7.5) = Fin (- 15 / 2)"
    unfolding to_double_def
    by (rule round_bin_cert[where e="2" and k="- 8444249301319680"]) (simp_all add: power_int_minus)
  moreover have "to_float (- 15 / 2) = Fin (- 15 / 2)"
    unfolding to_float_def
    by (rule round_bin_cert[where e="2" and k="- 15728640"]) (simp_all add: power_int_minus)
  ultimately show ?thesis by (simp add: flit_def)
qed

lemma flit_m2_5: "flit (- 2.5) = Fin (- 5 / 2)"
proof -
  have "to_double (- 2.5) = Fin (- 5 / 2)"
    unfolding to_double_def
    by (rule round_bin_cert[where e="1" and k="- 5629499534213120"]) (simp_all add: power_int_minus)
  moreover have "to_float (- 5 / 2) = Fin (- 5 / 2)"
    unfolding to_float_def
    by (rule round_bin_cert[where e="1" and k="- 10485760"]) (simp_all add: power_int_minus)
  ultimately show ?thesis by (simp add: flit_def)
qed

lemma flit_m1_5: "flit (- 1.5) = Fin (- 3 / 2)"
proof -
  have "to_double (- 1.5) = Fin (- 3 / 2)"
    unfolding to_double_def
    by (rule round_bin_cert[where e="0" and k="- 6755399441055744"]) (simp_all add: power_int_minus)
  moreover have "to_float (- 3 / 2) = Fin (- 3 / 2)"
    unfolding to_float_def
    by (rule round_bin_cert[where e="0" and k="- 12582912"]) (simp_all add: power_int_minus)
  ultimately show ?thesis by (simp add: flit_def)
qed

lemma flit_m2_01: "flit (- 2.01) = Fin (- 8430551 / 4194304)"
proof -
  have "to_double (- 2.01) = Fin (- 1131529406376837 / 562949953421312)"
    unfolding to_double_def
    by (rule round_bin_cert[where e="1" and k="- 4526117625507348"]) (simp_all add: power_int_minus)
  moreover have "to_float (- 1131529406376837 / 562949953421312) = Fin (- 8430551 / 4194304)"
    unfolding to_float_def
    by (rule round_bin_cert[where e="1" and k="- 8430551"]) (simp_all add: power_int_minus)
  ultimately show ?thesis by (simp add: flit_def)
qed

lemma flit_m1_99: "flit (- 1.99) = Fin (- 8346665 / 4194304)"
proof -
  have "to_double (- 1.99) = Fin (- 8962163258467287 / 4503599627370496)"
    unfolding to_double_def
    by (rule round_bin_cert[where e="0" and k="- 8962163258467287"]) (simp_all add: power_int_minus)
  moreover have "to_float (- 8962163258467287 / 4503599627370496) = Fin (- 8346665 / 4194304)"
    unfolding to_float_def
    by (rule round_bin_cert[where e="0" and k="- 16693330"]) (simp_all add: power_int_minus)
  ultimately show ?thesis by (simp add: flit_def)
qed

lemma flit_1_86: "flit 1.86 = Fin (15602811 / 8388608)"
proof -
  have "to_double 1.86 = Fin (8376695306909123 / 4503599627370496)"
    unfolding to_double_def
    by (rule round_bin_cert[where e="0" and k="8376695306909123"]) (simp_all add: power_int_minus)
  moreover have "to_float (8376695306909123 / 4503599627370496) = Fin (15602811 / 8388608)"
    unfolding to_float_def
    by (rule round_bin_cert[where e="0" and k="15602811"]) (simp_all add: power_int_minus)
  ultimately show ?thesis by (simp add: flit_def)
qed

lemma flit_m7_54: "flit (- 7.54) = Fin (- 7906263 / 1048576)"
proof -
  have "to_double (- 7.54) = Fin (- 8489285297593385 / 1125899906842624)"
    unfolding to_double_def
    by (rule round_bin_cert[where e="2" and k="- 8489285297593385"]) (simp_all add: power_int_minus)
  moreover have "to_float (- 8489285297593385 / 1125899906842624) = Fin (- 7906263 / 1048576)"
    unfolding to_float_def
    by (rule round_bin_cert[where e="2" and k="- 15812526"]) (simp_all add: power_int_minus)
  ultimately show ?thesis by (simp add: flit_def)
qed

lemma flit_m9_9: "flit (- 9.9) = Fin (- 5190451 / 524288)"
proof -
  have "to_double (- 9.9) = Fin (- 5573204538870989 / 562949953421312)"
    unfolding to_double_def
    by (rule round_bin_cert[where e="3" and k="- 5573204538870989"]) (simp_all add: power_int_minus)
  moreover have "to_float (- 5573204538870989 / 562949953421312) = Fin (- 5190451 / 524288)"
    unfolding to_float_def
    by (rule round_bin_cert[where e="3" and k="- 10380902"]) (simp_all add: power_int_minus)
  ultimately show ?thesis by (simp add: flit_def)
qed

lemma flit_m3_32: "flit (- 3.32) = Fin (- 13925089 / 4194304)"
proof -
  have "to_double (- 3.32) = Fin (- 7475975381435023 / 2251799813685248)"
    unfolding to_double_def
    by (rule round_bin_cert[where e="1" and k="- 7475975381435023"]) (simp_all add: power_int_minus)
  moreover have "to_float (- 7475975381435023 / 2251799813685248) = Fin (- 13925089 / 4194304)"
    unfolding to_float_def
    by (rule round_bin_cert[where e="1" and k="- 13925089"]) (simp_all add: power_int_minus)
  ultimately show ?thesis by (simp add: flit_def)
qed

lemma flit_m2_32: "flit (- 2.32) = Fin (- 9730785 / 4194304)"
proof -
  have "to_double (- 2.32) = Fin (- 5224175567749775 / 2251799813685248)"
    unfolding to_double_def
    by (rule round_bin_cert[where e="1" and k="- 5224175567749775"]) (simp_all add: power_int_minus)
  moreover have "to_float (- 5224175567749775 / 2251799813685248) = Fin (- 9730785 / 4194304)"
    unfolding to_float_def
    by (rule round_bin_cert[where e="1" and k="- 9730785"]) (simp_all add: power_int_minus)
  ultimately show ?thesis by (simp add: flit_def)
qed

lemma flit_m7_55: "flit (- 7.55) = Fin (- 7916749 / 1048576)"
proof -
  have "to_double (- 7.55) = Fin (- 8500544296661811 / 1125899906842624)"
    unfolding to_double_def
    by (rule round_bin_cert[where e="2" and k="- 8500544296661811"]) (simp_all add: power_int_minus)
  moreover have "to_float (- 8500544296661811 / 1125899906842624) = Fin (- 7916749 / 1048576)"
    unfolding to_float_def
    by (rule round_bin_cert[where e="2" and k="- 15833498"]) (simp_all add: power_int_minus)
  ultimately show ?thesis by (simp add: flit_def)
qed

lemma flit_m7_53: "flit (- 7.53) = Fin (- 15791555 / 2097152)"
proof -
  have "to_double (- 7.53) = Fin (- 8478026298524959 / 1125899906842624)"
    unfolding to_double_def
    by (rule round_bin_cert[where e="2" and k="- 8478026298524959"]) (simp_all add: power_int_minus)
  moreover have "to_float (- 8478026298524959 / 1125899906842624) = Fin (- 15791555 / 2097152)"
    unfolding to_float_def
    by (rule round_bin_cert[where e="2" and k="- 15791555"]) (simp_all add: power_int_minus)
  ultimately show ?thesis by (simp add: flit_def)
qed

lemma flit_m9_35: "flit (- 9.35) = Fin (- 4902093 / 524288)"
proof -
  have "to_double (- 9.35) = Fin (- 5263582064489267 / 562949953421312)"
    unfolding to_double_def
    by (rule round_bin_cert[where e="3" and k="- 5263582064489267"]) (simp_all add: power_int_minus)
  moreover have "to_float (- 5263582064489267 / 562949953421312) = Fin (- 4902093 / 524288)"
    unfolding to_float_def
    by (rule round_bin_cert[where e="3" and k="- 9804186"]) (simp_all add: power_int_minus)
  ultimately show ?thesis by (simp add: flit_def)
qed

lemma flit_m2: "flit (- 2) = Fin (- 2)"
proof -
  have "to_double (- 2) = Fin (- 2)"
    unfolding to_double_def
    by (rule round_bin_cert[where e="1" and k="- 4503599627370496"]) (simp_all add: power_int_minus)
  moreover have "to_float (- 2) = Fin (- 2)"
    unfolding to_float_def
    by (rule round_bin_cert[where e="1" and k="- 8388608"]) (simp_all add: power_int_minus)
  ultimately show ?thesis by (simp add: flit_def)
qed

lemma flit_m9: "flit (- 9) = Fin (- 9)"
proof -
  have "to_double (- 9) = Fin (- 9)"
    unfolding to_double_def
    by (rule round_bin_cert[where e="3" and k="- 5066549580791808"]) (simp_all add: power_int_minus)
  moreover have "to_float (- 9) = Fin (- 9)"
    unfolding to_float_def
    by (rule round_bin_cert[where e="3" and k="- 9437184"]) (simp_all add: power_int_minus)
  ultimately show ?thesis by (simp add: flit_def)
qed

lemma flit_m2_8: "flit (- 2.8) = Fin (- 11744051 / 4194304)"
proof -
  have "to_double (- 2.8) = Fin (- 3152519739159347 / 1125899906842624)"
    unfolding to_double_def
    by (rule round_bin_cert[where e="1" and k="- 6305039478318694"]) (simp_all add: power_int_minus)
  moreover have "to_float (- 3152519739159347 / 1125899906842624) = Fin (- 11744051 / 4194304)"
    unfolding to_float_def
    by (rule round_bin_cert[where e="1" and k="- 11744051"]) (simp_all add: power_int_minus)
  ultimately show ?thesis by (simp add: flit_def)
qed

lemma flit_m7_6: "flit (- 7.6) = Fin (- 15938355 / 2097152)"
proof -
  have "to_double (- 7.6) = Fin (- 4278419646001971 / 562949953421312)"
    unfolding to_double_def
    by (rule round_bin_cert[where e="2" and k="- 8556839292003942"]) (simp_all add: power_int_minus)
  moreover have "to_float (- 4278419646001971 / 562949953421312) = Fin (- 15938355 / 2097152)"
    unfolding to_float_def
    by (rule round_bin_cert[where e="2" and k="- 15938355"]) (simp_all add: power_int_minus)
  ultimately show ?thesis by (simp add: flit_def)
qed

lemma dlit_m7_53: "to_double (- 7.53) = Fin (- 8478026298524959 / 1125899906842624)"
  unfolding to_double_def
  by (rule round_bin_cert[where e="2" and k="- 8478026298524959"]) (simp_all add: power_int_minus)

lemma flit_0: "flit 0 = Fin 0"
  by (simp add: flit_def to_double_def to_float_def round_bin_def)

lemmas fp_consts =
  flit_m11_5 flit_11_5 flit_m10 flit_10 flit_m4_64 flit_m5_45
  flit_4_5 flit_4_76 flit_m2_6 flit_m7_5 flit_m2_5 flit_m1_5
  flit_m2_01 flit_m1_99 flit_1_86 flit_m7_54 flit_m9_9 flit_m3_32
  flit_m2_32 flit_m7_55 flit_m7_53 flit_m9_35 flit_m2 flit_m9
  flit_m2_8 flit_m7_6 dlit_m7_53 flit_0

text \<open>The same equations, and their forms with the literals normalised by the simplifier.\<close>

lemmas fp_vals = fp_consts fp_consts[simplified]

section \<open>Facts about the range helpers\<close>

lemmas cmp_defs = clampFloat_def between_def fgt_def fge_def

lemma clampFloat_id: "between v lo hi \<Longrightarrow> clampFloat v lo hi = v"
  by (cases v; cases lo; cases hi) (auto simp: cmp_defs)

lemma clampFloat_NaN_iff: "clampFloat v (Fin l) (Fin h) = NaN \<longleftrightarrow> v = NaN"
  by (cases v) (auto simp: cmp_defs)

lemma clampFloat_nested:
  "l' \<le> l \<Longrightarrow> l \<le> h \<Longrightarrow> h \<le> h' \<Longrightarrow>
   clampFloat (clampFloat v (Fin l) (Fin h)) (Fin l') (Fin h') = clampFloat v (Fin l) (Fin h)"
  by (cases v) (auto simp: cmp_defs)

lemma between_clampFloat:
  "v \<noteq> NaN \<Longrightarrow> l' \<le> l \<Longrightarrow> l \<le> h \<Longrightarrow> h \<le> h' \<Longrightarrow>
   between (clampFloat v (Fin l) (Fin h)) (Fin l') (Fin h')"
  by (cases v) (auto simp: cmp_defs)

lemma correctForBoundaries_cases:
  fixes p :: Point3
  defines "x1 \<equiv> clampFloat (px p) (flit (- 11.5)) (flit 11.5)"
    and "z1 \<equiv> clampFloat (pz p) (flit (- 10)) (flit 10)"
  obtains
    (ground) "\<not> flt (py p) (to_double (- 7.53))"
      "correctForBoundaries p = \<lparr>px = x1, py = py p, pz = z1\<rparr>"
  | (landing) "flt (py p) (to_double (- 7.53))"
      "between z1 (flit (- 10)) (flit (- 4.64))"
      "correctForBoundaries p =
         \<lparr>px = clampFloat x1 (flit (- 5.45)) (flit 11.5), py = py p, pz = z1\<rparr>"
  | (far) "flt (py p) (to_double (- 7.53))"
      "\<not> between z1 (flit (- 10)) (flit (- 4.64))"
      "between z1 (flit 4.76) (flit 10)"
      "correctForBoundaries p =
         \<lparr>px = clampFloat x1 (flit (- 2.6)) (flit 11.5), py = py p, pz = z1\<rparr>"
  | (hole) "flt (py p) (to_double (- 7.53))"
      "\<not> between z1 (flit (- 10)) (flit (- 4.64))"
      "\<not> between z1 (flit 4.76) (flit 10)"
      "between z1 (flit (- 4.64)) (flit 4.76)"
      "correctForBoundaries p =
         \<lparr>px = clampFloat x1 (flit 4.5) (flit 11.5), py = py p, pz = z1\<rparr>"
  | (nowhere) "flt (py p) (to_double (- 7.53))"
      "\<not> between z1 (flit (- 10)) (flit (- 4.64))"
      "\<not> between z1 (flit 4.76) (flit 10)"
      "\<not> between z1 (flit (- 4.64)) (flit 4.76)"
      "correctForBoundaries p = \<lparr>px = x1, py = py p, pz = z1\<rparr>"
proof (cases "flt (py p) (to_double (- 7.53))")
  case False
  then have "correctForBoundaries p = \<lparr>px = x1, py = py p, pz = z1\<rparr>"
    by (simp add: correctForBoundaries_def x1_def z1_def Let_def)
  with False show ?thesis by (rule ground)
next
  case y: True
  show ?thesis
  proof (cases "between z1 (flit (- 10)) (flit (- 4.64))")
    case True
    then have "clampFloat z1 (flit (- 10)) (flit (- 4.64)) = z1" by (rule clampFloat_id)
    with y True have "correctForBoundaries p =
         \<lparr>px = clampFloat x1 (flit (- 5.45)) (flit 11.5), py = py p, pz = z1\<rparr>"
      unfolding x1_def z1_def by (simp add: correctForBoundaries_def Let_def)
    with y True show ?thesis by (rule landing)
  next
    case nl: False
    show ?thesis
    proof (cases "between z1 (flit 4.76) (flit 10)")
      case True
      then have "clampFloat z1 (flit 4.76) (flit 10) = z1" by (rule clampFloat_id)
      with y nl True have "correctForBoundaries p =
           \<lparr>px = clampFloat x1 (flit (- 2.6)) (flit 11.5), py = py p, pz = z1\<rparr>"
        unfolding x1_def z1_def by (simp add: correctForBoundaries_def Let_def)
      with y nl True show ?thesis by (rule far)
    next
      case nf: False
      show ?thesis
      proof (cases "between z1 (flit (- 4.64)) (flit 4.76)")
        case True
        with y nl nf have "correctForBoundaries p =
           \<lparr>px = clampFloat x1 (flit 4.5) (flit 11.5), py = py p, pz = z1\<rparr>"
          unfolding x1_def z1_def by (simp add: correctForBoundaries_def Let_def)
        with y nl nf True show ?thesis by (rule hole)
      next
        case False
        with y nl nf have "correctForBoundaries p = \<lparr>px = x1, py = py p, pz = z1\<rparr>"
          unfolding x1_def z1_def by (simp add: correctForBoundaries_def Let_def)
        with y nl nf False show ?thesis by (rule nowhere)
      qed
    qed
  qed
qed



lemma clampFloat_eq_NaN: "v \<noteq> NaN \<Longrightarrow> clampFloat v (Fin l) (Fin h) \<noteq> NaN"
  by (simp add: clampFloat_NaN_iff)


section \<open>The boundary clamp: footprint, hole and idempotence\<close>

text \<open>
  C1.  For every position, the position returned by \<open>correctForBoundaries\<close> has \<open>x\<close> in
  \<open>[-11.5, 11.5]\<close> when the \<open>x\<close> given is not NaN, and \<open>z\<close> in \<open>[-10, 10]\<close> when the \<open>z\<close> given
  is not NaN (infinities included, each coordinate on its own); a NaN \<open>x\<close> is returned as
  NaN, and so is a NaN \<open>z\<close>.
\<close>

theorem correctForBoundaries_footprint:
  "(px p \<noteq> NaN \<longrightarrow> between (px (correctForBoundaries p)) (flit (- 11.5)) (flit 11.5))
   \<and> (pz p \<noteq> NaN \<longrightarrow> between (pz (correctForBoundaries p)) (flit (- 10)) (flit 10))
   \<and> (px p = NaN \<longrightarrow> px (correctForBoundaries p) = NaN)
   \<and> (pz p = NaN \<longrightarrow> pz (correctForBoundaries p) = NaN)"
proof (intro conjI impI)
  assume "px p \<noteq> NaN"
  then show "between (px (correctForBoundaries p)) (flit (- 11.5)) (flit 11.5)"
    by (cases p rule: correctForBoundaries_cases)
       (simp_all add: fp_vals between_clampFloat clampFloat_eq_NaN)
next
  assume "pz p \<noteq> NaN"
  then show "between (pz (correctForBoundaries p)) (flit (- 10)) (flit 10)"
    by (cases p rule: correctForBoundaries_cases)
       (simp_all add: fp_vals between_clampFloat)
next
  assume "px p = NaN"
  then show "px (correctForBoundaries p) = NaN"
    by (cases p rule: correctForBoundaries_cases)
       (simp_all add: fp_vals clampFloat_NaN_iff)
next
  assume "pz p = NaN"
  then show "pz (correctForBoundaries p) = NaN"
    by (cases p rule: correctForBoundaries_cases)
       (simp_all add: fp_vals clampFloat_NaN_iff)
qed

theorem correctForBoundaries_footprint_witness:
  "px \<lparr>px = Fin 100, py = Fin (- 8), pz = NaN\<rparr> \<noteq> NaN
   \<and> between (px (correctForBoundaries \<lparr>px = Fin 100, py = Fin (- 8), pz = NaN\<rparr>))
         (flit (- 11.5)) (flit 11.5)
   \<and> pz \<lparr>px = Fin 100, py = Fin (- 8), pz = NaN\<rparr> = NaN
   \<and> pz (correctForBoundaries \<lparr>px = Fin 100, py = Fin (- 8), pz = NaN\<rparr>) = NaN
   \<and> pz \<lparr>px = NaN, py = Fin 0, pz = Fin 100\<rparr> \<noteq> NaN
   \<and> between (pz (correctForBoundaries \<lparr>px = NaN, py = Fin 0, pz = Fin 100\<rparr>))
         (flit (- 10)) (flit 10)
   \<and> px \<lparr>px = NaN, py = Fin 0, pz = Fin 100\<rparr> = NaN
   \<and> px (correctForBoundaries \<lparr>px = NaN, py = Fin 0, pz = Fin 100\<rparr>) = NaN"
  using correctForBoundaries_footprint [of "\<lparr>px = Fin 100, py = Fin (- 8), pz = NaN\<rparr>"]
    correctForBoundaries_footprint [of "\<lparr>px = NaN, py = Fin 0, pz = Fin 100\<rparr>"]
  by simp

text \<open>
  A NaN passes through \<open>clampFloat\<close>: both of its comparisons are false, so the value
  itself is returned, and a NaN lies in no interval.
\<close>

theorem correctForBoundaries_footprint_counterexample:
  "\<not> (between (px (correctForBoundaries \<lparr>px = NaN, py = Fin 0, pz = Fin 0\<rparr>))
          (flit (- 11.5)) (flit 11.5)
      \<and> between (pz (correctForBoundaries \<lparr>px = NaN, py = Fin 0, pz = Fin 0\<rparr>))
          (flit (- 10)) (flit 10))"
  by (simp add: correctForBoundaries_def Let_def fp_vals cmp_defs)

text \<open>
  C3.  For every position with \<open>y < -7.53\<close>, \<open>x\<close> not NaN and \<open>z\<close> strictly between
  \<open>-4.64\<close> and \<open>4.76\<close>, the position returned by \<open>correctForBoundaries\<close> has \<open>x\<close> in
  \<open>[4.5, 11.5]\<close>.
\<close>

theorem correctForBoundaries_hole:
  assumes y: "flt (py p) (to_double (- 7.53))" and x: "px p \<noteq> NaN"
    and zl: "flt (flit (- 4.64)) (pz p)" and zh: "flt (pz p) (flit 4.76)"
  shows "between (px (correctForBoundaries p)) (flit 4.5) (flit 11.5)"
proof -
  have z1: "clampFloat (pz p) (flit (- 10)) (flit 10) = pz p"
    using zl zh unfolding fp_consts by (cases "pz p") (simp_all add: cmp_defs)
  have nl: "\<not> between (pz p) (flit (- 10)) (flit (- 4.64))"
    using zl unfolding fp_consts by (cases "pz p") (simp_all add: cmp_defs)
  have nf: "\<not> between (pz p) (flit 4.76) (flit 10)"
    using zh unfolding fp_consts by (cases "pz p") (simp_all add: cmp_defs)
  have h: "between (pz p) (flit (- 4.64)) (flit 4.76)"
    using zl zh unfolding fp_consts by (cases "pz p") (simp_all add: cmp_defs)
  show ?thesis
    using x y nl nf h z1
    by (cases p rule: correctForBoundaries_cases)
       (simp_all add: fp_vals between_clampFloat clampFloat_eq_NaN)
qed

theorem correctForBoundaries_hole_witness:
  "flt (py \<lparr>px = Fin 0, py = Fin (- 8), pz = Fin 0\<rparr>) (to_double (- 7.53))
   \<and> px \<lparr>px = Fin 0, py = Fin (- 8), pz = Fin 0\<rparr> \<noteq> NaN
   \<and> flt (flit (- 4.64)) (pz \<lparr>px = Fin 0, py = Fin (- 8), pz = Fin 0\<rparr>)
   \<and> flt (pz \<lparr>px = Fin 0, py = Fin (- 8), pz = Fin 0\<rparr>) (flit 4.76)
   \<and> between (px (correctForBoundaries \<lparr>px = Fin 0, py = Fin (- 8), pz = Fin 0\<rparr>))
         (flit 4.5) (flit 11.5)"
proof -
  let ?p = "\<lparr>px = Fin 0, py = Fin (- 8), pz = Fin 0\<rparr>"
  have h: "flt (py ?p) (to_double (- 7.53))" "px ?p \<noteq> NaN"
    "flt (flit (- 4.64)) (pz ?p)" "flt (pz ?p) (flit 4.76)"
    by (simp_all add: fp_vals)
  from h correctForBoundaries_hole [OF h] show ?thesis by blast
qed

text \<open>
  At \<open>z = -4.64\<close> the first branch of the \<open>else if\<close> chain (the stair landing) takes the
  position, and its clamp keeps \<open>x = 0\<close>; a NaN \<open>x\<close> is returned as it is.
\<close>

theorem correctForBoundaries_hole_counterexample:
  "flt (Fin (- 8)) (to_double (- 7.53))
   \<and> between (flit (- 4.64)) (flit (- 4.64)) (flit 4.76)
   \<and> \<not> between (px (correctForBoundaries \<lparr>px = Fin 0, py = Fin (- 8), pz = flit (- 4.64)\<rparr>))
          (flit 4.5) (flit 11.5)
   \<and> between (Fin 0) (flit (- 4.64)) (flit 4.76)
   \<and> \<not> between (px (correctForBoundaries \<lparr>px = NaN, py = Fin (- 8), pz = Fin 0\<rparr>))
          (flit 4.5) (flit 11.5)"
  by (simp add: correctForBoundaries_def Let_def fp_vals cmp_defs)

text \<open>
  C4.  The boundary clamp is idempotent: applying \<open>correctForBoundaries\<close> twice gives the
  same position as applying it once.
\<close>

theorem correctForBoundaries_idempotent:
  "correctForBoundaries (correctForBoundaries p) = correctForBoundaries p"
proof (cases p rule: correctForBoundaries_cases)
  case ground
  then show ?thesis
    by (simp add: correctForBoundaries_def Let_def fp_vals clampFloat_nested)
next
  case landing
  note z = clampFloat_id[OF landing(2)]
  show ?thesis unfolding landing(3) using landing(1,2) z
    by (simp add: correctForBoundaries_def Let_def fp_vals clampFloat_nested)
next
  case far
  note z = clampFloat_id[OF far(3)]
  show ?thesis unfolding far(4) using far(1,2,3) z
    by (simp add: correctForBoundaries_def Let_def fp_vals clampFloat_nested)
next
  case hole
  show ?thesis unfolding hole(5) using hole(1,2,3,4)
    by (simp add: correctForBoundaries_def Let_def fp_vals clampFloat_nested)
next
  case nowhere
  show ?thesis unfolding nowhere(5) using nowhere(1,2,3,4)
    by (simp add: correctForBoundaries_def Let_def fp_vals clampFloat_nested)
qed

section \<open>The teleport check\<close>

lemma triggers_disjoint: "lower_trigger p \<Longrightarrow> \<not> upper_trigger p"
  unfolding lower_trigger_def upper_trigger_def fp_consts
  by (cases "px p") (simp_all add: cmp_defs)

lemma destinations_outside:
  "\<not> lower_trigger \<lparr>px = flit 1.86, py = flit (- 7.54), pz = flit (- 9.9)\<rparr>"
  "\<not> upper_trigger \<lparr>px = flit 1.86, py = flit (- 7.54), pz = flit (- 9.9)\<rparr>"
  "\<not> lower_trigger \<lparr>px = flit (- 9.35), py = flit (- 2), pz = flit 0\<rparr>"
  "\<not> upper_trigger \<lparr>px = flit (- 9.35), py = flit (- 2), pz = flit 0\<rparr>"
  by (simp_all add: lower_trigger_def upper_trigger_def fp_vals cmp_defs)

lemma lower_to_upper_fired:
  "lower_trigger p \<Longrightarrow>
     lower_to_upper p = \<lparr>px = flit 1.86, py = flit (- 7.54), pz = flit (- 9.9)\<rparr>"
  by (cases p) (simp add: lower_to_upper_def)

lemma upper_to_lower_fired:
  "upper_trigger p \<Longrightarrow>
     upper_to_lower p = \<lparr>px = flit (- 9.35), py = flit (- 2), pz = flit 0\<rparr>"
  by (cases p) (simp add: upper_to_lower_def)

lemma teleport_lower:
  "lower_trigger p \<Longrightarrow>
     teleportIfNecessary p = \<lparr>px = flit 1.86, py = flit (- 7.54), pz = flit (- 9.9)\<rparr>"
  unfolding teleportIfNecessary_def
  by (simp only: lower_to_upper_fired) (simp only: upper_to_lower_def destinations_outside if_False)

lemma teleport_upper:
  "upper_trigger p \<Longrightarrow>
     teleportIfNecessary p = \<lparr>px = flit (- 9.35), py = flit (- 2), pz = flit 0\<rparr>"
proof -
  assume u: "upper_trigger p"
  then have "\<not> lower_trigger p" using triggers_disjoint by blast
  then have "lower_to_upper p = p" by (simp add: lower_to_upper_def)
  then show ?thesis using u by (simp only: teleportIfNecessary_def upper_to_lower_fired)
qed

lemma teleport_none:
  "\<not> lower_trigger p \<Longrightarrow> \<not> upper_trigger p \<Longrightarrow> teleportIfNecessary p = p"
  by (simp add: teleportIfNecessary_def lower_to_upper_def upper_to_lower_def)

lemma one_trigger: "\<not> (lower_trigger p \<and> upper_trigger (lower_to_upper p))"
  using lower_to_upper_fired[of p] destinations_outside(2) by auto

text \<open>
  C2.  \<open>teleportIfNecessary\<close> maps any position inside the box \<open>x \<in> [-11.5, -7.5]\<close>,
  \<open>z \<in> [-2.5, -1.5]\<close>, \<open>y \<in> [-2.01, -1.99]\<close> to exactly \<open>(1.86, -7.54, -9.9)\<close>, any position
  inside the box \<open>x \<in> [-3.32, -2.32]\<close>, \<open>z \<in> [-10, -7.5]\<close>, \<open>y \<in> [-7.55, -7.53]\<close> to exactly
  \<open>(-9.35, -2, 0)\<close>, and leaves every other position unchanged; the boxes are disjoint and
  at most one of the two tests fires in a call.  Input \<open>(-9, -2, -2)\<close> yields
  \<open>(1.86, -7.54, -9.9)\<close>; input \<open>(-2.8, -2, -7.6)\<close>, whose height \<open>-2\<close> is outside the second
  box, is unchanged, while \<open>(-2.8, -7.54, -7.6)\<close> yields \<open>(-9.35, -2, 0)\<close>; input \<open>(0, 0, 0)\<close>
  is unchanged.
\<close>

theorem teleportIfNecessary_boxes:
  "teleportIfNecessary p =
     (if between (px p) (flit (- 11.5)) (flit (- 7.5))
          \<and> between (pz p) (flit (- 2.5)) (flit (- 1.5))
          \<and> between (py p) (flit (- 2.01)) (flit (- 1.99))
      then \<lparr>px = flit 1.86, py = flit (- 7.54), pz = flit (- 9.9)\<rparr>
      else if between (px p) (flit (- 3.32)) (flit (- 2.32))
          \<and> between (pz p) (flit (- 10)) (flit (- 7.5))
          \<and> between (py p) (flit (- 7.55)) (flit (- 7.53))
      then \<lparr>px = flit (- 9.35), py = flit (- 2), pz = flit 0\<rparr>
      else p)
   \<and> \<not> ((between (px p) (flit (- 11.5)) (flit (- 7.5))
          \<and> between (pz p) (flit (- 2.5)) (flit (- 1.5))
          \<and> between (py p) (flit (- 2.01)) (flit (- 1.99)))
        \<and> (between (px p) (flit (- 3.32)) (flit (- 2.32))
          \<and> between (pz p) (flit (- 10)) (flit (- 7.5))
          \<and> between (py p) (flit (- 7.55)) (flit (- 7.53))))
   \<and> \<not> (lower_trigger p \<and> upper_trigger (lower_to_upper p))
   \<and> teleportIfNecessary \<lparr>px = flit (- 9), py = flit (- 2), pz = flit (- 2)\<rparr>
        = \<lparr>px = flit 1.86, py = flit (- 7.54), pz = flit (- 9.9)\<rparr>
   \<and> teleportIfNecessary \<lparr>px = flit (- 2.8), py = flit (- 2), pz = flit (- 7.6)\<rparr>
        = \<lparr>px = flit (- 2.8), py = flit (- 2), pz = flit (- 7.6)\<rparr>
   \<and> teleportIfNecessary \<lparr>px = flit (- 2.8), py = flit (- 7.54), pz = flit (- 7.6)\<rparr>
        = \<lparr>px = flit (- 9.35), py = flit (- 2), pz = flit 0\<rparr>
   \<and> teleportIfNecessary \<lparr>px = flit 0, py = flit 0, pz = flit 0\<rparr>
        = \<lparr>px = flit 0, py = flit 0, pz = flit 0\<rparr>"
proof -
  have e1: "lower_trigger \<lparr>px = flit (- 9), py = flit (- 2), pz = flit (- 2)\<rparr>"
    by (simp add: lower_trigger_def fp_vals cmp_defs)
  have e2: "\<not> lower_trigger \<lparr>px = flit (- 2.8), py = flit (- 2), pz = flit (- 7.6)\<rparr>"
    "\<not> upper_trigger \<lparr>px = flit (- 2.8), py = flit (- 2), pz = flit (- 7.6)\<rparr>"
    by (simp_all add: lower_trigger_def upper_trigger_def fp_vals cmp_defs)
  have e3: "upper_trigger \<lparr>px = flit (- 2.8), py = flit (- 7.54), pz = flit (- 7.6)\<rparr>"
    by (simp add: upper_trigger_def fp_vals cmp_defs)
  have e4: "\<not> lower_trigger \<lparr>px = flit 0, py = flit 0, pz = flit 0\<rparr>"
    "\<not> upper_trigger \<lparr>px = flit 0, py = flit 0, pz = flit 0\<rparr>"
    by (simp_all add: lower_trigger_def upper_trigger_def fp_vals cmp_defs)
  have g: "teleportIfNecessary p =
     (if lower_trigger p then \<lparr>px = flit 1.86, py = flit (- 7.54), pz = flit (- 9.9)\<rparr>
      else if upper_trigger p then \<lparr>px = flit (- 9.35), py = flit (- 2), pz = flit 0\<rparr>
      else p)"
    using teleport_lower[of p] teleport_upper[of p] teleport_none[of p] by simp
  have d: "\<not> (lower_trigger p \<and> upper_trigger p)"
    using triggers_disjoint by blast
  show ?thesis
    using g d one_trigger[of p]
      teleport_lower[OF e1] teleport_none[OF e2] teleport_upper[OF e3] teleport_none[OF e4]
    unfolding lower_trigger_def[of p] upper_trigger_def[of p]
    by blast
qed

theorem teleportIfNecessary_boxes_witness:
  "between (flit (- 9)) (flit (- 11.5)) (flit (- 7.5))
   \<and> between (flit (- 2)) (flit (- 2.5)) (flit (- 1.5))
   \<and> between (flit (- 2)) (flit (- 2.01)) (flit (- 1.99))
   \<and> teleportIfNecessary \<lparr>px = flit (- 9), py = flit (- 2), pz = flit (- 2)\<rparr>
        = \<lparr>px = flit 1.86, py = flit (- 7.54), pz = flit (- 9.9)\<rparr>"
proof -
  have h: "between (flit (- 9)) (flit (- 11.5)) (flit (- 7.5))"
    "between (flit (- 2)) (flit (- 2.5)) (flit (- 1.5))"
    "between (flit (- 2)) (flit (- 2.01)) (flit (- 1.99))"
    by (simp_all add: fp_vals cmp_defs)
  from teleportIfNecessary_boxes [of "\<lparr>px = flit (- 9), py = flit (- 2), pz = flit (- 2)\<rparr>"]
  have "teleportIfNecessary \<lparr>px = flit (- 9), py = flit (- 2), pz = flit (- 2)\<rparr>
        = \<lparr>px = flit 1.86, py = flit (- 7.54), pz = flit (- 9.9)\<rparr>"
    by blast
  with h show ?thesis by blast
qed

text \<open>
  The second sample input of the claim has \<open>y = -2\<close>; the second test asks for
  \<open>y \<in> [-7.55, -7.53]\<close>, and the first for \<open>x \<le> -7.5\<close>, so neither fires.
\<close>

theorem teleportIfNecessary_boxes_counterexample:
  "teleportIfNecessary \<lparr>px = flit (- 2.8), py = flit (- 2), pz = flit (- 7.6)\<rparr>
     \<noteq> \<lparr>px = flit (- 9.35), py = flit (- 2), pz = flit 0\<rparr>"
  by (simp add: teleportIfNecessary_def lower_to_upper_def upper_to_lower_def
      lower_trigger_def upper_trigger_def fp_vals cmp_defs)

text \<open>
  C10.  The teleport check is idempotent and never chains: neither destination lies inside
  either trigger box, a position rewritten by the first test never satisfies the second,
  and applying \<open>teleportIfNecessary\<close> twice equals applying it once.
\<close>

theorem teleportIfNecessary_idempotent:
  "\<not> lower_trigger \<lparr>px = flit 1.86, py = flit (- 7.54), pz = flit (- 9.9)\<rparr>
   \<and> \<not> upper_trigger \<lparr>px = flit 1.86, py = flit (- 7.54), pz = flit (- 9.9)\<rparr>
   \<and> \<not> lower_trigger \<lparr>px = flit (- 9.35), py = flit (- 2), pz = flit 0\<rparr>
   \<and> \<not> upper_trigger \<lparr>px = flit (- 9.35), py = flit (- 2), pz = flit 0\<rparr>
   \<and> \<not> (lower_trigger p \<and> upper_trigger (lower_to_upper p))
   \<and> teleportIfNecessary (teleportIfNecessary p) = teleportIfNecessary p"
proof -
  have "teleportIfNecessary (teleportIfNecessary p) = teleportIfNecessary p"
  proof (cases "lower_trigger p")
    case True
    show ?thesis unfolding teleport_lower[OF True]
      by (rule teleport_none) (rule destinations_outside)+
  next
    case l: False
    show ?thesis
    proof (cases "upper_trigger p")
      case True
      show ?thesis unfolding teleport_upper[OF True]
        by (rule teleport_none) (rule destinations_outside)+
    next
      case False
      with l show ?thesis by (simp add: teleport_none)
    qed
  qed
  with destinations_outside one_trigger show ?thesis by blast
qed

theorem teleportIfNecessary_idempotent_witness:
  "lower_trigger \<lparr>px = flit (- 9), py = flit (- 2), pz = flit (- 2)\<rparr>
   \<and> \<not> upper_trigger (lower_to_upper \<lparr>px = flit (- 9), py = flit (- 2), pz = flit (- 2)\<rparr>)
   \<and> teleportIfNecessary (teleportIfNecessary \<lparr>px = flit (- 9), py = flit (- 2), pz = flit (- 2)\<rparr>)
       = teleportIfNecessary \<lparr>px = flit (- 9), py = flit (- 2), pz = flit (- 2)\<rparr>"
proof -
  have "lower_trigger \<lparr>px = flit (- 9), py = flit (- 2), pz = flit (- 2)\<rparr>"
    by (simp add: lower_trigger_def fp_vals cmp_defs)
  with teleportIfNecessary_idempotent [of "\<lparr>px = flit (- 9), py = flit (- 2), pz = flit (- 2)\<rparr>"]
  show ?thesis by blast
qed

section \<open>Movement and looking\<close>

lemma fsub_fneg: "fsub a (fneg b) = fadd a b"
  by (cases a; cases b) simp_all

lemma fadd_fneg: "fadd a (fneg b) = fsub a b"
  by (cases a; cases b) simp_all

text \<open>
  C5.  With \<open>F\<close> the current forward vector: forward adds \<open>F\<close> to the position, backward
  subtracts \<open>F\<close>, strafing left adds \<open>rotate90 F\<close> and strafing right subtracts \<open>rotate90 F\<close>;
  after every movement the boundary clamp is applied first and the teleport check second.
\<close>

theorem handleKeyboard_moves:
  "handleKeyboard CHR ''w'' F s =
     Running (s\<lparr>cameraPos := teleportIfNecessary (correctForBoundaries
                  (plus_horizontal (cameraPos s) F))\<rparr>)
   \<and> handleKeyboard CHR ''s'' F s =
     Running (s\<lparr>cameraPos := teleportIfNecessary (correctForBoundaries
                  (minus_horizontal (cameraPos s) F))\<rparr>)
   \<and> handleKeyboard CHR ''a'' F s =
     Running (s\<lparr>cameraPos := teleportIfNecessary (correctForBoundaries
                  (plus_horizontal (cameraPos s) (rotate90 F)))\<rparr>)
   \<and> handleKeyboard CHR ''d'' F s =
     Running (s\<lparr>cameraPos := teleportIfNecessary (correctForBoundaries
                  (minus_horizontal (cameraPos s) (rotate90 F)))\<rparr>)"
  by (simp add: handleKeyboard_def plus_horizontal_def minus_horizontal_def rotate90_def
      fsub_fneg fadd_fneg Let_def)

text \<open>Small integers are \<open>float\<close>s: rounding leaves them as they are.\<close>

lemma to_float_of_int:
  assumes "0 < k" and "k < 2 ^ 24"
  shows "to_float (of_int k) = Fin (of_int k)"
proof -
  define e where "e = bitlen k - 1"
  have b1: "1 \<le> bitlen k" using assms(1) by (auto simp: bitlen_alt_def)
  have b2: "bitlen k \<le> 24" using assms(2) by (simp add: bitlen_le_iff_power)
  have e: "0 \<le> e" "e \<le> 23" using b1 b2 by (simp_all add: e_def)
  have lo: "(2::rat) powi e \<le> \<bar>of_int k\<bar>"
    using bitlen_rat_bounds(1)[OF assms(1)] assms(1) by (simp add: e_def)
  have hi: "\<bar>of_int k :: rat\<bar> < 2 powi (e + 1)"
    using bitlen_rat_bounds(2)[OF assms(1)] assms(1) by (simp add: e_def)
  have q: "(2::rat) powi (e - 23) = 1 / 2 ^ nat (23 - e)"
  proof -
    have "e - 23 = - int (nat (23 - e))" using e by simp
    then show ?thesis by (simp only: power_int_minus power_int_of_nat inverse_eq_divide)
  qed
  have big: "(of_int k :: rat) < 2 powi (127 + 1)"
  proof -
    have "(of_int k :: rat) < of_int (2 ^ 24)" using assms(2) by (simp only: of_int_less_iff)
    also have "\<dots> < 2 powi (127 + 1)" by simp
    finally show ?thesis .
  qed
  show ?thesis
    unfolding to_float_def
  proof (rule round_bin_cert[where e = e and k = "k * 2 ^ nat (23 - e)"])
    show "2 powi e \<le> \<bar>rat_of_int k\<bar>" by (rule lo)
    show "\<bar>rat_of_int k\<bar> < 2 powi (e + 1)" by (rule hi)
    show "- 126 \<le> e" using e by simp
    show "\<bar>rat_of_int (k * 2 ^ nat (23 - e)) - rat_of_int k / 2 powi (e - int 24 + 1)\<bar> < 1 / 2"
      by (simp add: q)
    show "rat_of_int k = rat_of_int (k * 2 ^ nat (23 - e)) * 2 powi (e - int 24 + 1)"
      by (simp add: q)
    show "\<bar>rat_of_int k\<bar> < 2 powi (127 + 1)" using big assms(1) by simp
  qed
qed

lemma to_float_of_nat:
  assumes "n < 2 ^ 24"
  shows "to_float (of_nat n) = Fin (of_nat n)"
proof (cases "n = 0")
  case True
  then show ?thesis by (simp add: to_float_def round_bin_def)
next
  case False
  then have "0 < int n" by simp
  moreover have "int n < 2 ^ 24"
  proof -
    have "int n < int (2 ^ 24)" using assms by (simp only: of_nat_less_iff)
    then show ?thesis by simp
  qed
  ultimately have "to_float (of_int (int n)) = Fin (of_int (int n))" by (rule to_float_of_int)
  then show ?thesis by simp
qed

lemma to_float_numeral [simp]:
  "(numeral w :: int) < 2 ^ 24 \<Longrightarrow> to_float (numeral w) = Fin (numeral w)"
  using to_float_of_int[of "numeral w"] by simp

lemma to_float_0 [simp]: "to_float 0 = Fin 0"
  by (simp add: to_float_def round_bin_def)

lemma to_float_1 [simp]: "to_float 1 = Fin 1"
  using to_float_of_int[of 1] by simp

lemma look_step:
  assumes n: "n < 360" and r: "cameraRotationY s = Fin (of_nat n)"
  shows "cameraRotationY (handleMouseMotion mx my s) =
           (if mx < prevX s then Fin (of_nat ((n + 1) mod 360))
            else Fin (of_nat ((n + 359) mod 360)))"
proof -
  have up: "n < 359 \<Longrightarrow> fadd (Fin (of_nat n)) (Fin 1) = Fin (of_nat (n + 1))"
  proof -
    assume "n < 359"
    then have "n + 1 < 2 ^ 24" by simp
    from to_float_of_nat[OF this] show ?thesis by (simp add: add.commute)
  qed
  have dn: "0 < n \<Longrightarrow> fsub (Fin (of_nat n)) (Fin 1) = Fin (of_nat (n - 1))"
  proof -
    assume "0 < n"
    have "n - 1 < 2 ^ 24" using n by simp
    from to_float_of_nat[OF this] \<open>0 < n\<close> show ?thesis by (simp add: of_nat_diff)
  qed
  show ?thesis
  proof (cases "mx < prevX s")
    case True
    show ?thesis
    proof (cases "n = 359")
      case True
      with \<open>mx < prevX s\<close> r show ?thesis by (simp add: handleMouseMotion_def fge_def)
    next
      case False
      then have "n < 359" using n by simp
      with \<open>mx < prevX s\<close> r up show ?thesis by (simp add: handleMouseMotion_def fge_def)
    qed
  next
    case False
    show ?thesis
    proof (cases "n = 0")
      case True
      with \<open>\<not> mx < prevX s\<close> r show ?thesis by (simp add: handleMouseMotion_def)
    next
      case nz: False
      then have "0 < n" by simp
      moreover have "(n + 359) mod 360 = n - 1" using n nz by (simp add: mod_if)
      ultimately show ?thesis using False r dn by (simp add: handleMouseMotion_def)
    qed
  qed
qed

lemma yaw_reachable: "\<exists>n<360. cameraRotationY (after_samples evs) = Fin (of_nat n)"
proof (induction evs rule: rev_induct)
  case Nil
  have "cameraRotationY (after_samples []) = Fin (of_nat 0)"
    by (simp add: after_samples_def init_def)
  then show ?case by (intro exI[of _ 0]) simp
next
  case (snoc e evs)
  then obtain n where n: "n < 360" "cameraRotationY (after_samples evs) = Fin (of_nat n)" by blast
  have st: "after_samples (evs @ [e]) = handleMouseMotion (fst e) (snd e) (after_samples evs)"
    by (simp add: after_samples_def)
  show ?case
  proof (cases "fst e < prevX (after_samples evs)")
    case True
    then have "cameraRotationY (after_samples (evs @ [e])) = Fin (of_nat ((n + 1) mod 360))"
      unfolding st look_step[OF n] by simp
    moreover have "(n + 1) mod 360 < 360" by simp
    ultimately show ?thesis by blast
  next
    case False
    then have "cameraRotationY (after_samples (evs @ [e])) = Fin (of_nat ((n + 359) mod 360))"
      unfolding st look_step[OF n] by simp
    moreover have "(n + 359) mod 360 < 360" by simp
    ultimately show ?thesis by blast
  qed
qed

text \<open>
  C9.  Every yaw reachable from the initial yaw 0 is a whole number \<open>n\<close> in \<open>[0, 359]\<close>; there
  a look to the left sets the yaw to \<open>(n + 1) mod 360\<close> and a look to the right to
  \<open>(n - 1) mod 360\<close>, so 359 steps to 0, 0 steps to 359, and the yaw stays in \<open>[0, 359]\<close>.
\<close>

theorem look_wraps:
  "\<exists>n<360. cameraRotationY (after_samples evs) = Fin (of_nat n)
     \<and> (mx < prevX (after_samples evs) \<longrightarrow>
          cameraRotationY (handleMouseMotion mx my (after_samples evs))
            = Fin (of_int ((int n + 1) mod 360)))
     \<and> (\<not> mx < prevX (after_samples evs) \<longrightarrow>
          cameraRotationY (handleMouseMotion mx my (after_samples evs))
            = Fin (of_int ((int n - 1) mod 360)))"
proof -
  obtain n where n: "n < 360" "cameraRotationY (after_samples evs) = Fin (of_nat n)"
    using yaw_reachable by blast
  have "(int n + 1) mod 360 = int ((n + 1) mod 360)"
    by (simp add: zmod_int add.commute)
  then have a: "rat_of_int ((int n + 1) mod 360) = of_nat ((n + 1) mod 360)"
    by simp
  have "(int n - 1) mod 360 = int ((n + 359) mod 360)"
  proof (cases "n = 0")
    case True
    then show ?thesis by simp
  next
    case False
    then have "int n - 1 = int (n - 1)" by simp
    moreover have "(n + 359) mod 360 = n - 1" using n(1) False by (simp add: mod_if)
    moreover have "int (n - 1) mod 360 = int (n - 1)" using n(1) by simp
    ultimately show ?thesis by (simp only:)
  qed
  then have b: "rat_of_int ((int n - 1) mod 360) = of_nat ((n + 359) mod 360)"
    by simp
  show ?thesis
  proof (intro exI[of _ n] conjI impI)
    show "n < 360" by (rule n(1))
    show "cameraRotationY (after_samples evs) = Fin (of_nat n)" by (rule n(2))
    show "cameraRotationY (handleMouseMotion mx my (after_samples evs))
            = Fin (of_int ((int n + 1) mod 360))" if "mx < prevX (after_samples evs)"
      using look_step[OF n, of mx my] that by (simp only: a if_True)
    show "cameraRotationY (handleMouseMotion mx my (after_samples evs))
            = Fin (of_int ((int n - 1) mod 360))" if "\<not> mx < prevX (after_samples evs)"
      using look_step[OF n, of mx my] that by (simp only: b if_False)
  qed
qed

theorem look_wraps_witness:
  "cameraRotationY (handleMouseMotion (- 1) 0 (after_samples [])) = Fin 1
   \<and> cameraRotationY (handleMouseMotion 0 0 (after_samples [])) = Fin 359"
proof -
  from look_wraps [of "[]" "- 1" 0] obtain n where
    n: "cameraRotationY (after_samples []) = Fin (of_nat n)"
       "- 1 < prevX (after_samples []) \<longrightarrow>
          cameraRotationY (handleMouseMotion (- 1) 0 (after_samples []))
            = Fin (of_int ((int n + 1) mod 360))"
    by blast
  from n(1) have "n = 0" by (simp add: after_samples_def init_def)
  with n(2) have left: "cameraRotationY (handleMouseMotion (- 1) 0 (after_samples [])) = Fin 1"
    by (simp add: after_samples_def init_def)
  from look_wraps [of "[]" 0 0] obtain m where
    m: "cameraRotationY (after_samples []) = Fin (of_nat m)"
       "\<not> 0 < prevX (after_samples []) \<longrightarrow>
          cameraRotationY (handleMouseMotion 0 0 (after_samples []))
            = Fin (of_int ((int m - 1) mod 360))"
    by blast
  from m(1) have "m = 0" by (simp add: after_samples_def init_def)
  with m(2) have right: "cameraRotationY (handleMouseMotion 0 0 (after_samples [])) = Fin 359"
    by (simp add: after_samples_def init_def)
  from left right show ?thesis by blast
qed

section \<open>The reader and the buffer\<close>

declare digits.simps [simp del]

lemmas scan_defs = scan_float_def scan_int_def skip_ws_def isspace_def isdigit_def decimal_def
  store_int_def c_str_def char_at_def

lemma three_Suc: "3 = Suc (Suc (Suc 0))" by simp
lemma four_Suc: "4 = Suc (Suc (Suc (Suc 0)))" by simp

lemma read_line_split:
  "read_line l (obj, out) = (fst (read_line l (obj, [])), out @ snd (read_line l (obj, [])))"
  by (simp add: read_line_def Let_def)

lemma read_lines_split:
  "foldl (\<lambda>st l. read_line l st) (obj, out) ls =
     (fst (foldl (\<lambda>st l. read_line l st) (obj, []) ls),
      out @ snd (foldl (\<lambda>st l. read_line l st) (obj, []) ls))"
proof (induction ls arbitrary: obj out)
  case Nil
  show ?case by simp
next
  case (Cons l ls)
  obtain obj' out' where r: "read_line l (obj, []) = (obj', out')"
    by (cases "read_line l (obj, [])")
  have r2: "read_line l (obj, out) = (obj', out @ out')"
    using read_line_split[of l obj out] r by simp
  show ?case
    using Cons.IH[of obj' "out @ out'"] Cons.IH[of obj' out'] by (simp add: r r2)
qed

lemma read_lines_obj:
  "fst (foldl (\<lambda>st l. read_line l st) (obj, out) ls)
     = fst (foldl (\<lambda>st l. read_line l st) (obj, []) ls)"
  using read_lines_split[of obj out ls] by simp

lemma readFile_obj:
  "fst (readFile ls obj) = fst (foldl (\<lambda>st l. read_line l st) (obj, []) ls)"
  by (simp add: readFile_def split: prod.split)

subsection \<open>Scanning a face line written in decimal\<close>

lemma of_char_digit: "d < 10 \<Longrightarrow> (of_char (digit_char d) :: nat) = 48 + d"
  by (simp add: digit_char_def)

lemma isdigit_digit_char: "d < 10 \<Longrightarrow> isdigit (digit_char d)"
  by (simp add: isdigit_def of_char_digit)

lemma digits_all: "list_all isdigit (digits n) \<and> digits n \<noteq> []"
proof (induction n rule: digits.induct)
  case (1 n)
  show ?case
  proof (cases "n < 10")
    case True
    then show ?thesis by (simp add: digits.simps[of n] isdigit_digit_char)
  next
    case False
    with 1 show ?thesis by (simp add: digits.simps[of n] isdigit_digit_char)
  qed
qed

lemma decimal_snoc: "decimal (xs @ [c]) = 10 * decimal xs + (of_char c - 48)"
  by (simp add: decimal_def)

lemma decimal_digits: "decimal (digits n) = n"
proof (induction n rule: digits.induct)
  case (1 n)
  show ?case
  proof (cases "n < 10")
    case True
    then show ?thesis by (simp add: digits.simps[of n] decimal_def of_char_digit)
  next
    case False
    with 1 have "decimal (digits (n div 10)) = n div 10" by simp
    with False show ?thesis
      by (simp add: digits.simps[of n] decimal_snoc of_char_digit)
  qed
qed

lemma takeWhile_run:
  "list_all P xs \<Longrightarrow> ys = [] \<or> \<not> P (hd ys) \<Longrightarrow> takeWhile P (xs @ ys) = xs"
  by (induction xs) (auto simp: takeWhile_eq_Nil_iff)

lemma dropWhile_run:
  "list_all P xs \<Longrightarrow> ys = [] \<or> \<not> P (hd ys) \<Longrightarrow> dropWhile P (xs @ ys) = ys"
  by (induction xs) (auto simp: dropWhile_eq_self_iff)

lemma isdigit_not_space: "isdigit c \<Longrightarrow> \<not> isspace c \<and> c \<noteq> CHR ''-'' \<and> c \<noteq> CHR ''+'' \<and> c \<noteq> CHR 0x00"
  by (auto simp: isdigit_def isspace_def)

lemma scan_digits:
  assumes "rest = [] \<or> \<not> isdigit (hd rest)"
  shows "skip_ws (digits n @ rest) = digits n @ rest"
    and "scan_sign (digits n @ rest) = (False, digits n @ rest)"
    and "takeWhile isdigit (digits n @ rest) = digits n"
    and "dropWhile isdigit (digits n @ rest) = rest"
proof -
  obtain c cs where d: "digits n = c # cs" using digits_all[of n] by (cases "digits n") auto
  have c: "isdigit c" using digits_all[of n] d by simp
  show "skip_ws (digits n @ rest) = digits n @ rest"
    using isdigit_not_space[OF c] by (simp add: skip_ws_def d)
  show "scan_sign (digits n @ rest) = (False, digits n @ rest)"
    using isdigit_not_space[OF c] by (simp add: d)
  show "takeWhile isdigit (digits n @ rest) = digits n"
    using digits_all[of n] assms by (intro takeWhile_run) auto
  show "dropWhile isdigit (digits n @ rest) = rest"
    using digits_all[of n] assms by (intro dropWhile_run) auto
qed

lemma scan_int_show:
  assumes "rest = [] \<or> \<not> isdigit (hd rest)"
  shows "scan_int (show_int k @ rest) = Some (k, rest)"
proof (cases "k < 0")
  case True
  have "skip_ws (CHR ''-'' # digits (nat (- k)) @ rest) = CHR ''-'' # digits (nat (- k)) @ rest"
    by (simp add: skip_ws_def isspace_def)
  then show ?thesis
    using True scan_digits(3,4)[OF assms, of "nat (- k)"] digits_all[of "nat (- k)"]
    by (simp add: scan_int_def show_int_def decimal_digits)
next
  case False
  then show ?thesis
    using scan_digits[OF assms, of "nat k"] digits_all[of "nat k"]
    by (simp add: scan_int_def show_int_def decimal_digits)
qed

lemma scan_pairs_step:
  assumes "rest = [] \<or> \<not> isdigit (hd rest)"
  shows "scan_pairs (Suc n) (CHR '' '' # show_int v @ ''//'' @ show_int w @ rest)
           = store_int v # store_int w # scan_pairs n rest"
proof -
  have a: "skip_ws (CHR '' '' # show_int v @ ''//'' @ show_int w @ rest)
             = show_int v @ ''//'' @ show_int w @ rest"
  proof (cases "v < 0")
    case True
    then show ?thesis by (simp add: skip_ws_def isspace_def show_int_def)
  next
    case False
    then show ?thesis
      using scan_digits(1)[of "''//'' @ show_int w @ rest" "nat v"]
      by (simp add: skip_ws_def isspace_def show_int_def isdigit_def)
  qed
  have b: "scan_int (show_int v @ ''//'' @ show_int w @ rest)
             = Some (v, ''//'' @ show_int w @ rest)"
    by (rule scan_int_show) (simp add: isdigit_def)
  have c: "scan_int (show_int w @ rest) = Some (w, rest)"
    by (rule scan_int_show) (rule assms)
  show ?thesis using a b c by simp
qed

lemma show_int_no_NUL: "CHR 0x00 \<notin> set (show_int k)"
proof -
  have "CHR 0x00 \<notin> set (digits n)" for n
    using digits_all[of n] isdigit_not_space by (auto simp: list_all_iff)
  then show ?thesis by (simp add: show_int_def)
qed

lemma c_str_id: "CHR 0x00 \<notin> set s \<Longrightarrow> c_str s = s"
  by (auto simp: c_str_def takeWhile_eq_all_conv)

lemma scan_pairs_Nil: "scan_pairs n [] = []"
  by (cases n) (simp_all add: scan_int_def skip_ws_def)

lemma scan_pairs_face_line:
  "scan_pairs 4 (drop 1 (c_str (face_line (Quad v0 v1 v2 v3) (Quad n0 n1 n2 n3))))
     = [store_int v0, store_int n0, store_int v1, store_int n1,
        store_int v2, store_int n2, store_int v3, store_int n3]"
proof -
  let ?r3 = "CHR '' '' # show_int v3 @ ''//'' @ show_int n3 @ []"
  let ?r2 = "CHR '' '' # show_int v2 @ ''//'' @ show_int n2 @ ?r3"
  let ?r1 = "CHR '' '' # show_int v1 @ ''//'' @ show_int n1 @ ?r2"
  let ?r0 = "CHR '' '' # show_int v0 @ ''//'' @ show_int n0 @ ?r1"
  have l: "face_line (Quad v0 v1 v2 v3) (Quad n0 n1 n2 n3) = CHR ''f'' # ?r0" by simp
  have "CHR 0x00 \<notin> set (CHR ''f'' # ?r0)" using show_int_no_NUL by simp
  then have c: "c_str (CHR ''f'' # ?r0) = CHR ''f'' # ?r0" by (rule c_str_id)
  have s3: "scan_pairs (Suc 0) ?r3 = [store_int v3, store_int n3]"
    using scan_pairs_step[of "[]" 0 v3 n3] by simp
  have s2: "scan_pairs (Suc (Suc 0)) ?r2 = store_int v2 # store_int n2 # scan_pairs (Suc 0) ?r3"
    by (rule scan_pairs_step) (simp add: isdigit_def)
  have s1: "scan_pairs (Suc (Suc (Suc 0))) ?r1
              = store_int v1 # store_int n1 # scan_pairs (Suc (Suc 0)) ?r2"
    by (rule scan_pairs_step) (simp add: isdigit_def)
  have s0: "scan_pairs (Suc (Suc (Suc (Suc 0)))) ?r0
              = store_int v0 # store_int n0 # scan_pairs (Suc (Suc (Suc 0))) ?r1"
    by (rule scan_pairs_step) (simp add: isdigit_def)
  show ?thesis
    unfolding l c four_Suc using s0 s1 s2 s3 by simp
qed

lemma read_face_line:
  "read_line (face_line (Quad v0 v1 v2 v3) (Quad n0 n1 n2 n3)) (obj, out) =
     (obj\<lparr>faces := faces obj @
         [\<lparr>vertexIds = Quad (store_int v0) (store_int v1) (store_int v2) (store_int v3),
           normalIds = Quad (store_int n0) (store_int n1) (store_int n2) (store_int n3)\<rparr>]\<rparr>,
      out @ [FaceIds (Quad (store_int v0) (store_int v1) (store_int v2) (store_int v3))])"
proof -
  have h: "char_at (face_line (Quad v0 v1 v2 v3) (Quad n0 n1 n2 n3)) 0 = CHR ''f''"
    by (simp add: char_at_def)
  show ?thesis
    unfolding read_line_def h scan_pairs_face_line
    by (simp add: assign_face_def assigned_def Let_def)
qed


subsection \<open>Resolving indices\<close>




lemma store_int_in_range: "- (2 ^ 31) \<le> k \<Longrightarrow> k < 2 ^ 31 \<Longrightarrow> store_int k = Some k"
  by (simp add: store_int_def)

lemma resolve_in_range:
  "1 \<le> k \<Longrightarrow> k \<le> int (length xs) \<Longrightarrow> resolve xs (Some k) = Inr (xs ! nat (k - 1))"
  by (simp add: resolve_def)

lemma corners_resolved:
  "list_all (\<lambda>(v, n). index_ok (length (vertices m)) v \<and> index_ok (length (normals m)) n) ps
   \<Longrightarrow> corners m ps
         = Inr (map (\<lambda>(v, n). (normals m ! nat (the n - 1), vertices m ! nat (the v - 1))) ps)"
proof (induction ps)
  case Nil
  show ?case by simp
next
  case (Cons a ps)
  obtain v n where a: "a = (v, n)" by (cases a)
  from Cons.prems obtain k j where kj: "v = Some k" "n = Some j"
    "1 \<le> k" "k \<le> int (length (vertices m))" "1 \<le> j" "j \<le> int (length (normals m))"
    by (auto simp: a index_ok_def split: option.splits)
  from Cons have "corners m ps
         = Inr (map (\<lambda>(v, n). (normals m ! nat (the n - 1), vertices m ! nat (the v - 1))) ps)"
    by simp
  then show ?case by (simp add: a kj resolve_def)
qed

lemma quads_resolved:
  "list_all (\<lambda>f. list_all (index_ok (length (vertices m))) (quad_list (vertexIds f))
                 \<and> list_all (index_ok (length (normals m))) (quad_list (normalIds f))) fs
   \<Longrightarrow> quads m fs = Inr (concat (map (face_corners m) fs))"
proof (induction fs)
  case Nil
  show ?case by simp
next
  case (Cons f fs)
  obtain a b c d where v: "vertexIds f = Quad a b c d" by (cases "vertexIds f")
  obtain a' b' c' d' where n: "normalIds f = Quad a' b' c' d'" by (cases "normalIds f")
  from Cons.prems have
    "list_all (\<lambda>(v, n). index_ok (length (vertices m)) v \<and> index_ok (length (normals m)) n)
       (zip (quad_list (vertexIds f)) (quad_list (normalIds f)))"
    by (simp add: v n)
  from corners_resolved[OF this] Cons show ?case by (simp add: face_corners_def)
qed

lemma toBuffer_resolved:
  "indices_resolve m \<Longrightarrow> toBuffer m = Inr (concat (map (face_corners m) (faces m)))"
  unfolding toBuffer_def indices_resolve_def by (rule quads_resolved)







subsection \<open>Lines that are skipped and lines that are not\<close>

text \<open>
  C6.  For every input line whose leading character is none of \<open>#\<close>, \<open>o\<close>, \<open>v\<close>, \<open>f\<close> (the
  empty line included), the reader reports the line as invalid and goes on: the object is
  unchanged by that line, and the file read with the line gives the same object as the
  file read without it; in particular the line \<open>x garbage\<close> has no effect on the object.
  A \<open>v\<close>, \<open>vn\<close> or \<open>f\<close> line is never reported, whatever number of its numeric fields can be
  scanned: exactly one vertex, normal or face is appended for it and printed.
\<close>

theorem read_line_unrecognized:
  "(char_at line 0 \<notin> {CHR ''#'', CHR ''o'', CHR ''v'', CHR ''f''} \<longrightarrow>
      read_line line (obj, out) = (obj, out @ [Invalid line])
      \<and> fst (readFile (before @ line # rest) obj0) = fst (readFile (before @ rest) obj0))
   \<and> (char_at line 0 = CHR ''v'' \<and> char_at line 1 \<noteq> CHR ''n'' \<longrightarrow>
      (\<exists>point. read_line line (obj, out)
         = (obj\<lparr>vertices := vertices obj @ [point]\<rparr>, out @ [Coords point])))
   \<and> (char_at line 0 = CHR ''v'' \<and> char_at line 1 = CHR ''n'' \<longrightarrow>
      (\<exists>point. read_line line (obj, out)
         = (obj\<lparr>normals := normals obj @ [point]\<rparr>, out @ [Coords point])))
   \<and> (char_at line 0 = CHR ''f'' \<longrightarrow>
      (\<exists>face. read_line line (obj, out)
         = (obj\<lparr>faces := faces obj @ [face]\<rparr>, out @ [FaceIds (vertexIds face)])))"
proof (intro conjI impI)
  assume u: "char_at line 0 \<notin> {CHR ''#'', CHR ''o'', CHR ''v'', CHR ''f''}"
  have step: "read_line line (obj, out) = (obj, out @ [Invalid line])" for obj out
    using u by (simp add: read_line_def)
  show "read_line line (obj, out) = (obj, out @ [Invalid line])" by (rule step)
  obtain o1 out1 where b: "foldl (\<lambda>st l. read_line l st) (obj0, []) before = (o1, out1)"
    by (cases "foldl (\<lambda>st l. read_line l st) (obj0, []) before")
  have "fst (readFile (before @ line # rest) obj0)
          = fst (foldl (\<lambda>st l. read_line l st) (o1, out1 @ [Invalid line]) rest)"
    by (simp add: readFile_obj b step)
  also have "\<dots> = fst (foldl (\<lambda>st l. read_line l st) (o1, out1) rest)"
    using read_lines_obj[of o1 "out1 @ [Invalid line]" rest] read_lines_obj[of o1 out1 rest]
    by simp
  also have "\<dots> = fst (readFile (before @ rest) obj0)"
    by (simp add: readFile_obj b)
  finally show "fst (readFile (before @ line # rest) obj0) = fst (readFile (before @ rest) obj0)" .
next
  assume "char_at line 0 = CHR ''v'' \<and> char_at line 1 \<noteq> CHR ''n''"
  then show "\<exists>point. read_line line (obj, out)
         = (obj\<lparr>vertices := vertices obj @ [point]\<rparr>, out @ [Coords point])"
    by (simp add: read_line_def Let_def)
next
  assume "char_at line 0 = CHR ''v'' \<and> char_at line 1 = CHR ''n''"
  then show "\<exists>point. read_line line (obj, out)
         = (obj\<lparr>normals := normals obj @ [point]\<rparr>, out @ [Coords point])"
    by (simp add: read_line_def Let_def)
next
  assume "char_at line 0 = CHR ''f''"
  then have "read_line line (obj, out)
         = (obj\<lparr>faces := faces obj @ [assign_face (scan_pairs 4 (drop 1 (c_str line)))]\<rparr>,
            out @ [FaceIds (vertexIds (assign_face (scan_pairs 4 (drop 1 (c_str line)))))])"
    by (simp add: read_line_def Let_def)
  then show "\<exists>face. read_line line (obj, out)
         = (obj\<lparr>faces := faces obj @ [face]\<rparr>, out @ [FaceIds (vertexIds face)])"
    by blast
qed

theorem read_line_unrecognized_witness:
  "char_at ''x garbage'' 0 \<notin> {CHR ''#'', CHR ''o'', CHR ''v'', CHR ''f''}
   \<and> read_line ''x garbage'' (Obj_default, []) = (Obj_default, [Invalid ''x garbage''])
   \<and> fst (readFile [''v 1 2 3'', ''x garbage'', ''vn 0 1 0''] Obj_default)
        = fst (readFile [''v 1 2 3'', ''vn 0 1 0''] Obj_default)
   \<and> char_at ''v 1 2'' 0 = CHR ''v'' \<and> char_at ''v 1 2'' 1 \<noteq> CHR ''n''
   \<and> (\<exists>point. read_line ''v 1 2'' (Obj_default, [])
         = (Obj_default\<lparr>vertices := vertices Obj_default @ [point]\<rparr>, [] @ [Coords point]))
   \<and> char_at ''vn 0 1'' 0 = CHR ''v'' \<and> char_at ''vn 0 1'' 1 = CHR ''n''
   \<and> (\<exists>point. read_line ''vn 0 1'' (Obj_default, [])
         = (Obj_default\<lparr>normals := normals Obj_default @ [point]\<rparr>, [] @ [Coords point]))
   \<and> char_at ''f 1//1 2'' 0 = CHR ''f''
   \<and> (\<exists>face. read_line ''f 1//1 2'' (Obj_default, [])
         = (Obj_default\<lparr>faces := faces Obj_default @ [face]\<rparr>, [] @ [FaceIds (vertexIds face)]))"
proof -
  have h: "char_at ''x garbage'' 0 \<notin> {CHR ''#'', CHR ''o'', CHR ''v'', CHR ''f''}"
    "char_at ''v 1 2'' 0 = CHR ''v'' \<and> char_at ''v 1 2'' 1 \<noteq> CHR ''n''"
    "char_at ''vn 0 1'' 0 = CHR ''v'' \<and> char_at ''vn 0 1'' 1 = CHR ''n''"
    "char_at ''f 1//1 2'' 0 = CHR ''f''"
    by (simp_all add: char_at_def)
  from h
    read_line_unrecognized
      [where line = "''x garbage''" and obj = Obj_default and out = "[]"
         and before = "[''v 1 2 3'']" and rest = "[''vn 0 1 0'']" and ?obj0.0 = Obj_default]
    read_line_unrecognized [where line = "''v 1 2''" and obj = Obj_default and out = "[]"]
    read_line_unrecognized [where line = "''vn 0 1''" and obj = Obj_default and out = "[]"]
    read_line_unrecognized [where line = "''f 1//1 2''" and obj = Obj_default and out = "[]"]
  show ?thesis by simp
qed

text \<open>
  A \<open>v\<close> line with two numbers scans two of its three fields, a \<open>vn\<close> line with two numbers
  likewise, and the face line below scans three of its eight.  The result of \<open>sscanf_s\<close> is
  not looked at: the point, with \<open>z\<close> left at its default, or the face, with five indices
  never assigned, is appended and printed like any other, and nothing is reported.
\<close>

theorem read_line_unrecognized_counterexample:
  "scan_floats 3 (drop 1 (c_str ''v 1 2'')) = [Fin 1, Fin 2]
   \<and> read_line ''v 1 2'' (Obj_default, []) =
       (Obj_default\<lparr>vertices := [\<lparr>px = Fin 1, py = Fin 2, pz = Fin 0\<rparr>]\<rparr>,
        [Coords \<lparr>px = Fin 1, py = Fin 2, pz = Fin 0\<rparr>])
   \<and> length (vertices (fst (read_line ''v 1 2'' (Obj_default, []))))
       \<noteq> length (vertices Obj_default)
   \<and> scan_floats 3 (drop 2 (c_str ''vn 0 1'')) = [Fin 0, Fin 1]
   \<and> read_line ''vn 0 1'' (Obj_default, []) =
       (Obj_default\<lparr>normals := [\<lparr>px = Fin 0, py = Fin 1, pz = Fin 0\<rparr>]\<rparr>,
        [Coords \<lparr>px = Fin 0, py = Fin 1, pz = Fin 0\<rparr>])
   \<and> length (normals (fst (read_line ''vn 0 1'' (Obj_default, []))))
       \<noteq> length (normals Obj_default)
   \<and> scan_pairs 4 (drop 1 (c_str ''f 1//1 2'')) = [Some 1, Some 1, Some 2]
   \<and> read_line ''f 1//1 2'' (Obj_default, []) =
       (Obj_default\<lparr>faces := [\<lparr>vertexIds = Quad (Some 1) (Some 2) None None,
                                  normalIds = Quad (Some 1) None None None\<rparr>]\<rparr>,
        [FaceIds (Quad (Some 1) (Some 2) None None)])
   \<and> length (faces (fst (read_line ''f 1//1 2'' (Obj_default, []))))
       \<noteq> length (faces Obj_default)"
  by (simp add: read_line_def Obj_default_def Point3_default_def scan_defs three_Suc four_Suc
       assign_face_def assigned_def Let_def)

subsection \<open>Stored and resolved indices\<close>

text \<open>
  C7.  Face indices are stored as the file gives them, counting from 1, the vertex indices
  in \<open>vertexIds\<close> and the normal indices in \<open>normalIds\<close>, and are converted to 0-based when
  \<open>toBuffer\<close> resolves them: the line \<open>f v0//n0 v1//n1 v2//n2 v3//n3\<close> stores
  \<open>[v0, v1, v2, v3]\<close> and \<open>[n0, n1, n2, n3]\<close> (each as it is when it fits an \<open>int\<close>), and
  \<open>toBuffer\<close> resolves a stored index \<open>k\<close> within range to element \<open>k - 1\<close> of its sequence.
  Reading the lines \<open>o Test\<close>, \<open>v 1 2 3\<close>, \<open>vn 0 1 0\<close>, \<open>f 1//1 1//1 1//1 1//1\<close> yields the name
  \<open>" Test"\<close> (leading blank kept), vertices \<open>[(1,2,3)]\<close>, normals \<open>[(0,1,0)]\<close> and exactly one
  face whose stored vertex and normal indices are \<open>[1,1,1,1]\<close>, each of which \<open>toBuffer\<close>
  resolves to element 0.
\<close>

theorem readFile_sample:
  "readFile [''o Test'', ''v 1 2 3'', ''vn 0 1 0'', ''f 1//1 1//1 1//1 1//1''] Obj_default
     = (\<lparr>name = '' Test'', vertices = [\<lparr>px = Fin 1, py = Fin 2, pz = Fin 3\<rparr>],
      normals = [\<lparr>px = Fin 0, py = Fin 1, pz = Fin 0\<rparr>],
      faces = [\<lparr>vertexIds = Quad (Some 1) (Some 1) (Some 1) (Some 1),
                normalIds = Quad (Some 1) (Some 1) (Some 1) (Some 1)\<rparr>]\<rparr>,
        [Coords \<lparr>px = Fin 1, py = Fin 2, pz = Fin 3\<rparr>,
         Coords \<lparr>px = Fin 0, py = Fin 1, pz = Fin 0\<rparr>,
         FaceIds (Quad (Some 1) (Some 1) (Some 1) (Some 1)), Name '' Test''])
   \<and> (let m = fst (readFile [''o Test'', ''v 1 2 3'', ''vn 0 1 0'', ''f 1//1 1//1 1//1 1//1''] Obj_default)
      in toBuffer m = Inr (replicate 4 (normals m ! 0, vertices m ! 0)))
   \<and> read_line (face_line (Quad v0 v1 v2 v3) (Quad n0 n1 n2 n3)) (obj, out) =
       (obj\<lparr>faces := faces obj @
         [\<lparr>vertexIds = Quad (store_int v0) (store_int v1) (store_int v2) (store_int v3),
           normalIds = Quad (store_int n0) (store_int n1) (store_int n2) (store_int n3)\<rparr>]\<rparr>,
        out @ [FaceIds (Quad (store_int v0) (store_int v1) (store_int v2) (store_int v3))])
   \<and> (- (2 ^ 31) \<le> k \<and> k < 2 ^ 31 \<longrightarrow> store_int k = Some k)
   \<and> (1 \<le> k \<and> k \<le> int (length xs) \<longrightarrow>
        resolve (xs :: Point3 list) (Some k) = Inr (xs ! nat (k - 1)))
   \<and> (indices_resolve m \<longrightarrow> toBuffer m = Inr (concat (map (face_corners m) (faces m))))"
proof -
  have a: "readFile [''o Test'', ''v 1 2 3'', ''vn 0 1 0'', ''f 1//1 1//1 1//1 1//1''] Obj_default
     = (\<lparr>name = '' Test'', vertices = [\<lparr>px = Fin 1, py = Fin 2, pz = Fin 3\<rparr>],
      normals = [\<lparr>px = Fin 0, py = Fin 1, pz = Fin 0\<rparr>],
      faces = [\<lparr>vertexIds = Quad (Some 1) (Some 1) (Some 1) (Some 1),
                normalIds = Quad (Some 1) (Some 1) (Some 1) (Some 1)\<rparr>]\<rparr>,
        [Coords \<lparr>px = Fin 1, py = Fin 2, pz = Fin 3\<rparr>,
         Coords \<lparr>px = Fin 0, py = Fin 1, pz = Fin 0\<rparr>,
         FaceIds (Quad (Some 1) (Some 1) (Some 1) (Some 1)), Name '' Test''])"
    by (simp add: readFile_def read_line_def Obj_default_def Point3_default_def scan_defs
         three_Suc four_Suc assign_face_def assigned_def Let_def)
  have b: "let m = fst (readFile [''o Test'', ''v 1 2 3'', ''vn 0 1 0'', ''f 1//1 1//1 1//1 1//1''] Obj_default)
      in toBuffer m = Inr (replicate 4 (normals m ! 0, vertices m ! 0))"
    unfolding a by (simp add: toBuffer_def resolve_def numeral_eq_Suc)
  show ?thesis
    using a b read_face_line[of v0 v1 v2 v3 n0 n1 n2 n3 obj out]
      store_int_in_range[of k] resolve_in_range[of k xs] toBuffer_resolved[of m]
    by blast
qed

theorem readFile_sample_witness:
  "- (2 ^ 31) \<le> (2::int) \<and> (2::int) < 2 ^ 31 \<and> store_int 2 = Some 2
   \<and> 1 \<le> (2::int)
   \<and> 2 \<le> int (length [\<lparr>px = Fin 1, py = Fin 2, pz = Fin 3\<rparr>, \<lparr>px = Fin 4, py = Fin 5, pz = Fin 6\<rparr>])
   \<and> resolve [\<lparr>px = Fin 1, py = Fin 2, pz = Fin 3\<rparr>, \<lparr>px = Fin 4, py = Fin 5, pz = Fin 6\<rparr>] (Some 2)
        = Inr \<lparr>px = Fin 4, py = Fin 5, pz = Fin 6\<rparr>
   \<and> indices_resolve
     \<lparr>name = [], vertices = [\<lparr>px = Fin 1, py = Fin 2, pz = Fin 3\<rparr>, \<lparr>px = Fin 4, py = Fin 5, pz = Fin 6\<rparr>],
      normals = [\<lparr>px = Fin 0, py = Fin 1, pz = Fin 0\<rparr>, \<lparr>px = Fin 1, py = Fin 0, pz = Fin 0\<rparr>],
      faces = [\<lparr>vertexIds = Quad (Some 1) (Some 2) (Some 2) (Some 1),
                normalIds = Quad (Some 2) (Some 2) (Some 1) (Some 1)\<rparr>]\<rparr>
   \<and> toBuffer
     \<lparr>name = [], vertices = [\<lparr>px = Fin 1, py = Fin 2, pz = Fin 3\<rparr>, \<lparr>px = Fin 4, py = Fin 5, pz = Fin 6\<rparr>],
      normals = [\<lparr>px = Fin 0, py = Fin 1, pz = Fin 0\<rparr>, \<lparr>px = Fin 1, py = Fin 0, pz = Fin 0\<rparr>],
      faces = [\<lparr>vertexIds = Quad (Some 1) (Some 2) (Some 2) (Some 1),
                normalIds = Quad (Some 2) (Some 2) (Some 1) (Some 1)\<rparr>]\<rparr>
     = Inr [(\<lparr>px = Fin 1, py = Fin 0, pz = Fin 0\<rparr>, \<lparr>px = Fin 1, py = Fin 2, pz = Fin 3\<rparr>),
            (\<lparr>px = Fin 1, py = Fin 0, pz = Fin 0\<rparr>, \<lparr>px = Fin 4, py = Fin 5, pz = Fin 6\<rparr>),
            (\<lparr>px = Fin 0, py = Fin 1, pz = Fin 0\<rparr>, \<lparr>px = Fin 4, py = Fin 5, pz = Fin 6\<rparr>),
            (\<lparr>px = Fin 0, py = Fin 1, pz = Fin 0\<rparr>, \<lparr>px = Fin 1, py = Fin 2, pz = Fin 3\<rparr>)]"
proof -
  let ?m = "\<lparr>name = [], vertices = [\<lparr>px = Fin 1, py = Fin 2, pz = Fin 3\<rparr>, \<lparr>px = Fin 4, py = Fin 5, pz = Fin 6\<rparr>],
      normals = [\<lparr>px = Fin 0, py = Fin 1, pz = Fin 0\<rparr>, \<lparr>px = Fin 1, py = Fin 0, pz = Fin 0\<rparr>],
      faces = [\<lparr>vertexIds = Quad (Some 1) (Some 2) (Some 2) (Some 1),
                normalIds = Quad (Some 2) (Some 2) (Some 1) (Some 1)\<rparr>]\<rparr>"
  have h: "indices_resolve ?m" by (simp add: indices_resolve_def index_ok_def)
  have r: "1 \<le> (2::int) \<and> 2 \<le> int (length [\<lparr>px = Fin 1, py = Fin 2, pz = Fin 3\<rparr>, \<lparr>px = Fin 4, py = Fin 5, pz = Fin 6\<rparr>])"
    by simp
  from h r
    readFile_sample [where k = 2 and m = ?m and
       xs = "[\<lparr>px = Fin 1, py = Fin 2, pz = Fin 3\<rparr>, \<lparr>px = Fin 4, py = Fin 5, pz = Fin 6\<rparr>]"]
  show ?thesis by (simp add: face_corners_def)
qed

theorem readFile_sample_counterexample:
  "faces (fst (readFile [''o Test'', ''v 1 2 3'', ''vn 0 1 0'', ''f 1//1 1//1 1//1 1//1''] Obj_default))
   \<noteq> [\<lparr>vertexIds = Quad (Some 0) (Some 0) (Some 0) (Some 0),
        normalIds = Quad (Some 0) (Some 0) (Some 0) (Some 0)\<rparr>]"
  by (simp add: readFile_def read_line_def Obj_default_def Point3_default_def scan_defs
       three_Suc four_Suc assign_face_def assigned_def Let_def)




end
